theory Spec2Isabelle
  imports Complex_Main "HOL-Library.Word" "HOL-Library.Product_Lexorder"
begin

section \<open>JavaScript strings\<close>

text \<open>
  A JavaScript string is a sequence of 16-bit code units; \<open>length\<close>, \<open>slice\<close>,
  \<open>lastIndexOf\<close> and \<open>trim\<close> all count code units. \<open>str\<close> embeds an ASCII literal.
\<close>

type_synonym jschar = "16 word"
type_synonym jsstring = "jschar list"

definition str :: "string \<Rightarrow> jsstring" where
  "str s = map (\<lambda>c. of_nat (of_char c)) s"

text \<open>
  \<open>String.prototype.trim\<close> removes WhiteSpace and LineTerminator code units from both
  ends: TAB, LF, VT, FF, CR, SP, NBSP, U+1680, U+2000..U+200A, U+2028, U+2029, U+202F,
  U+205F, U+3000 and U+FEFF.
\<close>

definition is_space :: "jschar \<Rightarrow> bool" where
  "is_space c \<longleftrightarrow>
     c = 0x09 \<or> c = 0x0A \<or> c = 0x0B \<or> c = 0x0C \<or> c = 0x0D \<or> c = 0x20 \<or> c = 0xA0 \<or>
     c = 0x1680 \<or> (0x2000 \<le> c \<and> c \<le> 0x200A) \<or> c = 0x2028 \<or> c = 0x2029 \<or>
     c = 0x202F \<or> c = 0x205F \<or> c = 0x3000 \<or> c = 0xFEFF"

definition trim :: "jsstring \<Rightarrow> jsstring" where
  "trim s = rev (dropWhile is_space (rev (dropWhile is_space s)))"

text \<open>
  \<open>s.slice(start, end)\<close>: a negative index counts from the end of the string, both
  indices are clamped to the string, and an empty range gives the empty string.
\<close>

definition js_slice :: "'a list \<Rightarrow> int \<Rightarrow> int \<Rightarrow> 'a list" where
  "js_slice s start end =
     (let len = int (length s);
          from = (if start < 0 then max (len + start) 0 else min start len);
          to = (if end < 0 then max (len + end) 0 else min end len)
      in take (nat (to - from)) (drop (nat from) s))"

text \<open>
  \<open>s.lastIndexOf(pat, pos)\<close>: the largest index \<open>k\<close> with \<open>0 \<le> k \<le> pos\<close> at which
  \<open>pat\<close> occurs in \<open>s\<close>, or \<open>-1\<close>; \<open>pos\<close> is clamped between \<open>0\<close> and
  \<open>length s - length pat\<close>.
\<close>

definition match_at :: "'a list \<Rightarrow> 'a list \<Rightarrow> nat \<Rightarrow> bool" where
  "match_at s pat k \<longleftrightarrow> take (length pat) (drop k s) = pat"

fun last_match :: "'a list \<Rightarrow> 'a list \<Rightarrow> nat \<Rightarrow> int" where
  "last_match s pat 0 = (if match_at s pat 0 then 0 else - 1)"
| "last_match s pat (Suc k) =
     (if match_at s pat (Suc k) then int (Suc k) else last_match s pat k)"

definition lastIndexOf :: "'a list \<Rightarrow> 'a list \<Rightarrow> int \<Rightarrow> int" where
  "lastIndexOf s pat pos =
     (if length s < length pat then - 1
      else last_match s pat (nat (min (max pos 0) (int (length s - length pat)))))"

text \<open>\<open>parts.join(sep)\<close>.\<close>

definition join :: "jsstring \<Rightarrow> jsstring list \<Rightarrow> jsstring" where
  "join sep parts = concat (case parts of [] \<Rightarrow> [] | p # ps \<Rightarrow> p # map (\<lambda>q. sep @ q) ps)"

text \<open>A non-negative integer inside a template literal: its decimal digits.\<close>

fun show_nat :: "nat \<Rightarrow> jsstring" where
  "show_nat n =
     (if n < 10 then [0x30 + of_nat n] else show_nat (n div 10) @ [0x30 + of_nat (n mod 10)])"

declare show_nat.simps [simp del]

section \<open>The chunker: \<open>splitIntoChunks\<close> (document-manager.ts)\<close>

definition breakChars :: "jsstring list" where
  "breakChars = [ [0x0A, 0x0A], [0x0A], [0x2E, 0x20], [0x21], [0x3F], [0x3B] ]"

text \<open>
  The \<open>for (const breakChar of breakChars)\<close> loop. The result is \<open>bestBreak\<close>: \<open>-1\<close>
  when no delimiter qualifies, otherwise the index just past the first delimiter (in
  priority order) whose last occurrence at or before \<open>end\<close> lies after
  \<open>start + chunkSize * 0.5\<close>. Both sides of that comparison are doubled here, so that it
  stays within the integers.
\<close>

fun find_break :: "jsstring \<Rightarrow> int \<Rightarrow> int \<Rightarrow> int \<Rightarrow> jsstring list \<Rightarrow> int" where
  "find_break text start chunkSize end [] = - 1"
| "find_break text start chunkSize end (breakChar # rest) =
     (let breakIndex = lastIndexOf text breakChar end
      in if 2 * breakIndex > 2 * start + chunkSize
         then breakIndex + int (length breakChar)
         else find_break text start chunkSize end rest)"

text \<open>The value of \<open>end\<close> when the loop body reaches \<open>chunks.push\<close>.\<close>

definition window_end :: "jsstring \<Rightarrow> int \<Rightarrow> int \<Rightarrow> int" where
  "window_end text chunkSize start =
     (let end = start + chunkSize
      in if end < int (length text)
         then (let bestBreak = find_break text start chunkSize end breakChars
               in if bestBreak > - 1 then bestBreak else end)
         else end)"

text \<open>
  The \<open>while (start < text.length)\<close> loop, with the array \<open>chunks\<close> it pushes to.
  It may run forever, so it is a partial function: \<open>None\<close> is the loop that never
  exits.
\<close>

partial_function (option) chunk_loop ::
  "jsstring \<Rightarrow> int \<Rightarrow> int \<Rightarrow> int \<Rightarrow> jsstring list \<Rightarrow> jsstring list option" where
  "chunk_loop text chunkSize overlap start chunks =
     (if start < int (length text)
      then (let end = window_end text chunkSize start
            in chunk_loop text chunkSize overlap (end - overlap)
                 (chunks @ [trim (js_slice text start end)]))
      else Some chunks)"

declare chunk_loop.simps [code]

definition long_enough :: "jsstring \<Rightarrow> bool" where
  "long_enough chunk \<longleftrightarrow> length chunk > 20"

definition splitIntoChunks :: "jsstring \<Rightarrow> int \<Rightarrow> int \<Rightarrow> jsstring list option" where
  "splitIntoChunks text chunkSize overlap =
     map_option (filter long_enough) (chunk_loop text chunkSize overlap 0 [])"

subsection \<open>Vocabulary for the chunker's properties\<close>

text \<open>
  The same loop, recording the window \<open>(start, end)\<close> of each iteration instead of
  the string pushed in it, which is \<open>chunk_of text (start, end)\<close>.
\<close>

partial_function (option) scan ::
  "jsstring \<Rightarrow> int \<Rightarrow> int \<Rightarrow> int \<Rightarrow> (int \<times> int) list \<Rightarrow> (int \<times> int) list option" where
  "scan text chunkSize overlap start windows =
     (if start < int (length text)
      then (let end = window_end text chunkSize start
            in scan text chunkSize overlap (end - overlap) (windows @ [(start, end)]))
      else Some windows)"

declare scan.simps [code]

definition chunk_of :: "jsstring \<Rightarrow> int \<times> int \<Rightarrow> jsstring" where
  "chunk_of text w = trim (js_slice text (fst w) (snd w))"

text \<open>The windows whose chunk survives the final \<open>filter\<close>.\<close>

definition kept :: "jsstring \<Rightarrow> (int \<times> int) list \<Rightarrow> (int \<times> int) list" where
  "kept text windows = filter (\<lambda>w. long_enough (chunk_of text w)) windows"

text \<open>
  The overlap of a window with a later one, in code units of the text: from the start of
  the later window to the end of the earlier one (or of the text). It is negative when
  the two windows are separated by a gap.
\<close>

definition shared :: "jsstring \<Rightarrow> int \<times> int \<Rightarrow> int \<times> int \<Rightarrow> int" where
  "shared text w w' = min (snd w) (int (length text)) - fst w'"

definition adjacent :: "jsstring \<Rightarrow> int \<Rightarrow> int \<times> int \<Rightarrow> int \<times> int \<Rightarrow> bool" where
  "adjacent text overlap w w' \<longleftrightarrow>
     fst w' = snd w - overlap \<and> 0 \<le> shared text w w' \<and> shared text w w' \<le> overlap"

definition window_ok :: "jsstring \<Rightarrow> int \<Rightarrow> int \<times> int \<Rightarrow> bool" where
  "window_ok text chunkSize w \<longleftrightarrow>
     snd w - fst w \<le> chunkSize \<or>
     (\<exists>bc\<in>set breakChars. snd w = lastIndexOf text bc (fst w + chunkSize) + int (length bc) \<and>
        snd w - fst w \<le> chunkSize + int (length bc))"

text \<open>
  The length bound of a chunk: \<open>chunkSize\<close>, or \<open>chunkSize\<close> plus the length of the
  delimiter that ended the window.
\<close>

definition chunk_bound :: "jsstring \<Rightarrow> int \<Rightarrow> int \<times> int \<Rightarrow> bool" where
  "chunk_bound text chunkSize w \<longleftrightarrow>
     int (length (chunk_of text w)) \<le> chunkSize \<or>
     (\<exists>bc\<in>set breakChars. snd w = lastIndexOf text bc (fst w + chunkSize) + int (length bc) \<and>
        int (length (chunk_of text w)) \<le> chunkSize + int (length bc))"

text \<open>The loop invariant of \<open>scan\<close> for well-behaved parameters.\<close>

definition scan_inv :: "jsstring \<Rightarrow> int \<Rightarrow> int \<Rightarrow> int \<Rightarrow> (int \<times> int) list \<Rightarrow> bool" where
  "scan_inv text chunkSize overlap start ws \<longleftrightarrow>
     0 \<le> start \<and>
     (\<forall>w\<in>set ws. 0 \<le> fst w \<and> fst w < snd w \<and> fst w < int (length text) \<and> fst w < start \<and>
        snd w - overlap \<le> start \<and> window_ok text chunkSize w) \<and>
     successively (adjacent text overlap) ws \<and>
     (ws \<noteq> [] \<longrightarrow> start = snd (last ws) - overlap) \<and>
     sorted_wrt (\<lambda>w w'. shared text w w' \<le> overlap) ws"

section \<open>JSON text extraction: \<open>extractTextFromJson\<close> (file-processor.ts)\<close>

text \<open>
  A JSON value as it stands in the document that \<open>processFile\<close> reads: an array is
  the list of its elements and an object is the list of its members, both in the order in
  which the document writes them. A document may write the same key more than once.
\<close>

datatype json =
    JNull
  | JBool bool
  | JNumber real
  | JString jsstring
  | JArray "json list"
  | JObject "(jsstring \<times> json) list"

text \<open>
  \<open>fs.readJson\<close> parses the document with \<open>JSON.parse\<close>, which creates the properties
  of an object member by member (CreateDataProperty): a key that is already a property
  of the object keeps its place and takes the new value, any other key becomes the last
  property. \<open>own_properties\<close> is the list of the object's properties in the order of
  their creation.
\<close>

fun define_property :: "(jsstring \<times> 'a) list \<Rightarrow> jsstring \<times> 'a \<Rightarrow> (jsstring \<times> 'a) list" where
  "define_property props (key, val) =
     (if key \<in> fst ` set props then map (\<lambda>(k, v). if k = key then (k, val) else (k, v)) props
      else props @ [(key, val)])"

definition own_properties :: "(jsstring \<times> 'a) list \<Rightarrow> (jsstring \<times> 'a) list" where
  "own_properties members = foldl define_property [] members"

text \<open>
  A property key is an array index when it is the canonical decimal numeral (digits
  only, no leading zero) of an integer from \<open>0\<close> to \<open>4294967294\<close>, which is two
  less than two to the power 32.
\<close>

definition index_value :: "jsstring \<Rightarrow> nat" where
  "index_value key = foldl (\<lambda>n c. 10 * n + (unat c - 48)) 0 key"

definition is_array_index :: "jsstring \<Rightarrow> bool" where
  "is_array_index key \<longleftrightarrow>
     key \<noteq> [] \<and> list_all (\<lambda>c. 0x30 \<le> c \<and> c \<le> 0x39) key \<and>
     (length key = 1 \<or> hd key \<noteq> 0x30) \<and> index_value key \<le> 4294967294"

text \<open>
  \<open>Object.entries(obj)\<close> enumerates the own properties in the order of
  OrdinaryOwnPropertyKeys: first the keys that are array indices, in ascending numeric
  order, then the other keys, in the order of their creation.
\<close>

definition object_entries :: "(jsstring \<times> 'a) list \<Rightarrow> (jsstring \<times> 'a) list" where
  "object_entries members =
     (let props = own_properties members
      in sort_key (\<lambda>e. index_value (fst e)) (filter (\<lambda>e. is_array_index (fst e)) props) @
         filter (\<lambda>e. \<not> is_array_index (fst e)) props)"

text \<open>\<open>typeof value === 'string' && value.length > 10\<close>.\<close>

fun long_string :: "json \<Rightarrow> bool" where
  "long_string (JString s) \<longleftrightarrow> length s > 10"
| "long_string _ \<longleftrightarrow> False"

fun string_value :: "json \<Rightarrow> jsstring" where
  "string_value (JString s) = s"
| "string_value _ = []"

text \<open>The size of the largest value of a list, which bounds the depth of the recursion.\<close>

fun max_size :: "json list \<Rightarrow> nat" where
  "max_size [] = 0"
| "max_size (x # xs) = max (size x) (max_size xs)"

text \<open>
  The closure \<open>extractText\<close>, with the array \<open>textParts\<close> it pushes to passed in and
  returned. \<open>extractItems\<close> is \<open>obj.forEach((item, index) => ...)\<close> and
  \<open>extractEntries\<close> is the \<open>forEach(([key, value]) => ...)\<close> that runs over
  \<open>Object.entries(obj)\<close>.
\<close>

function (sequential) extractText :: "json \<Rightarrow> jsstring \<Rightarrow> jsstring list \<Rightarrow> jsstring list"
  and extractItems :: "json list \<Rightarrow> nat \<Rightarrow> jsstring \<Rightarrow> jsstring list \<Rightarrow> jsstring list"
  and extractEntries :: "(jsstring \<times> json) list \<Rightarrow> jsstring \<Rightarrow> jsstring list \<Rightarrow> jsstring list" where
  "extractText (JString s) prefix textParts = textParts @ [s]"
| "extractText (JArray items) prefix textParts = extractItems items 0 prefix textParts"
| "extractText (JObject members) prefix textParts =
     extractEntries (object_entries members) prefix textParts"
| "extractText obj prefix textParts = textParts"
| "extractItems [] index prefix textParts = textParts"
| "extractItems (item # rest) index prefix textParts =
     extractItems rest (Suc index) prefix
       (extractText item (prefix @ str ''['' @ show_nat index @ str '']'') textParts)"
| "extractEntries [] prefix textParts = textParts"
| "extractEntries ((key, val) # rest) prefix textParts =
     extractEntries rest prefix
       (if long_string val then textParts @ [key @ str '': '' @ string_value val]
        else extractText val (if prefix \<noteq> [] then prefix @ str ''.'' @ key else key) textParts)"
  by pat_completeness auto

termination
proof (relation "measures [\<lambda>x. case x of
      Inl (obj, _) \<Rightarrow> 2 * size obj
    | Inr (Inl (items, _)) \<Rightarrow> 2 * max_size items + 1
    | Inr (Inr (entries, _)) \<Rightarrow> 2 * max_size (map snd entries) + 1,
    \<lambda>x. case x of
      Inl _ \<Rightarrow> 0
    | Inr (Inl (items, _)) \<Rightarrow> length items
    | Inr (Inr (entries, _)) \<Rightarrow> length entries]", goal_cases)
  case 1
  show ?case by simp
next
  case (2 items prefix textParts)
  have "max_size items \<le> size_list size items" by (induction items) auto
  then show ?case by simp
next
  case (3 members prefix textParts)
  have bound: "max_size vs < n" if "\<forall>v \<in> set vs. size v < n" and "0 < n" for vs n
    using that by (induction vs) auto
  have step: "snd ` set (define_property props m) \<subseteq> snd ` set props \<union> {snd m}"
    for props and m :: "jsstring \<times> json"
    by (cases m) (auto split: if_splits)
  have "snd ` set (foldl define_property props ms) \<subseteq> snd ` set props \<union> snd ` set ms"
    for props and ms :: "(jsstring \<times> json) list"
  proof (induction ms arbitrary: props)
    case Nil
    show ?case by simp
  next
    case (Cons m ms)
    from Cons.IH [of "define_property props m"] step [of props m] show ?case by auto
  qed
  from this [of "[]" members]
  have sub: "snd ` set (object_entries members) \<subseteq> snd ` set members"
    by (auto simp: object_entries_def own_properties_def Let_def)
  have "size v < size (JObject members)" if "v \<in> snd ` set members" for v
  proof -
    from that obtain k where "(k, v) \<in> set members" by auto
    then have "size_prod (\<lambda>_. 0) size (k, v) \<le> size_list (size_prod (\<lambda>_. 0) size) members"
      by (rule size_list_estimation') simp
    then show ?thesis by simp
  qed
  with sub have "\<forall>v \<in> set (map snd (object_entries members)). size v < size (JObject members)"
    by auto
  from bound [OF this] show ?case by simp
qed (auto simp: max_def)

definition extractTextFromJson :: "json \<Rightarrow> jsstring" where
  "extractTextFromJson data = join [0x0A, 0x0A] (extractText data [] [])"

text \<open>
  The strings that a depth-first traversal emits when it visits the elements of an
  array in document order and the entries of an object in the order of
  \<open>Object.entries\<close>: an object entry whose value is a string longer than 10 gives
  \<open>key: value\<close>, every other string leaf gives the string itself, and nothing else
  gives anything.
\<close>

function (sequential) emitted :: "json \<Rightarrow> jsstring list"
  and emitted_entry :: "jsstring \<times> json \<Rightarrow> jsstring list" where
  "emitted (JString s) = [s]"
| "emitted (JArray items) = concat (map emitted items)"
| "emitted (JObject members) = concat (map emitted_entry (object_entries members))"
| "emitted other = []"
| "emitted_entry (key, JString s) = (if length s > 10 then [key @ str '': '' @ s] else [s])"
| "emitted_entry (key, val) = emitted val"
  by pat_completeness auto

termination
proof (relation "measure (\<lambda>x. case x of Inl obj \<Rightarrow> 2 * size obj | Inr e \<Rightarrow> 2 * size (snd e) + 1)",
    goal_cases)
  case (2 items x)
  then have "size x \<le> size_list size items" by (simp add: size_list_estimation')
  then show ?case by simp
next
  case (3 members e)
  have step: "snd ` set (define_property props m) \<subseteq> snd ` set props \<union> {snd m}"
    for props and m :: "jsstring \<times> json"
    by (cases m) (auto split: if_splits)
  have "snd ` set (foldl define_property props ms) \<subseteq> snd ` set props \<union> snd ` set ms"
    for props and ms :: "(jsstring \<times> json) list"
  proof (induction ms arbitrary: props)
    case Nil
    show ?case by simp
  next
    case (Cons m ms)
    from Cons.IH [of "define_property props m"] step [of props m] show ?case by auto
  qed
  from this [of "[]" members]
  have "snd ` set (object_entries members) \<subseteq> snd ` set members"
    by (auto simp: object_entries_def own_properties_def Let_def)
  with 3 obtain k where "(k, snd e) \<in> set members" by auto
  then have "size_prod (\<lambda>_. 0) size (k, snd e) \<le> size_list (size_prod (\<lambda>_. 0) size) members"
    by (rule size_list_estimation') simp
  then show ?case by simp
qed simp_all

text \<open>
  The strings that the document-order traversal of the specification emits: the same
  traversal, but over the members of an object as the document writes them.
\<close>

function (sequential) emitted_document :: "json \<Rightarrow> jsstring list"
  and document_entry :: "jsstring \<times> json \<Rightarrow> jsstring list" where
  "emitted_document (JString s) = [s]"
| "emitted_document (JArray items) = concat (map emitted_document items)"
| "emitted_document (JObject members) = concat (map document_entry members)"
| "emitted_document other = []"
| "document_entry (key, JString s) = (if length s > 10 then [key @ str '': '' @ s] else [s])"
| "document_entry (key, val) = emitted_document val"
  by pat_completeness auto

termination
proof (relation "measure (\<lambda>x. case x of Inl obj \<Rightarrow> 2 * size obj | Inr e \<Rightarrow> 2 * size (snd e) + 1)",
    goal_cases)
  case (3 members e)
  then have "size (snd e) < Suc (size_list (size_prod (\<lambda>_. 0) size) members)"
    by (induction members) auto
  then show ?case by simp
next
  case (2 items x)
  then have "size x \<le> size_list size items" by (simp add: size_list_estimation')
  then show ?case by simp
qed simp_all

text \<open>
  A value is plain when no object in it writes a key twice or has a key that is an
  array index.
\<close>

function (sequential) plain :: "json \<Rightarrow> bool" where
  "plain (JArray items) \<longleftrightarrow> (\<forall>item \<in> set items. plain item)"
| "plain (JObject members) \<longleftrightarrow>
     distinct (map fst members) \<and>
     (\<forall>m \<in> set members. \<not> is_array_index (fst m) \<and> plain (snd m))"
| "plain other \<longleftrightarrow> True"
  by pat_completeness auto

termination
proof (relation "measure size", goal_cases)
  case (2 items item)
  then have "size item \<le> size_list size items" by (simp add: size_list_estimation')
  then show ?case by simp
next
  case (3 members m)
  then have "size (snd m) < Suc (size_list (size_prod (\<lambda>_. 0) size) members)"
    by (induction members) auto
  then show ?case by simp
qed simp_all

section \<open>The store and the external collaborators\<close>

text \<open>
  A JavaScript number, or a PostgreSQL \<open>float8\<close>: a real or NaN (rounding is not
  modelled). \<open>js_less\<close> is \<open><\<close>, which is false on NaN; \<open>float8_key\<close> is the order of
  \<open>ORDER BY\<close>, in which NaN comes after every number.
\<close>

type_synonym vector = "real list"

datatype number = NaN | Num real

definition js_less :: "number \<Rightarrow> real \<Rightarrow> bool" where
  "js_less x y = (case x of NaN \<Rightarrow> False | Num a \<Rightarrow> a < y)"

definition one_minus :: "number \<Rightarrow> number" where
  "one_minus x = (case x of NaN \<Rightarrow> NaN | Num a \<Rightarrow> Num (1 - a))"

definition float8_key :: "number \<Rightarrow> bool \<times> real" where
  "float8_key x = (case x of NaN \<Rightarrow> (True, 0) | Num a \<Rightarrow> (False, a))"

text \<open>
  \<open>ProcessedFile\<close> (file-processor.ts). A \<open>Date\<close> is its time value in milliseconds.
\<close>

record processed_file =
  path :: jsstring
  content :: jsstring
  file_type :: jsstring
  file_size :: nat
  lastModified :: int

text \<open>
  A row of the table \<open>document_chunks\<close>: the four columns that \<open>ingestFile\<close> writes.
  The metadata column holds \<open>lastModified.toISOString()\<close>, which determines the time
  value and is kept here as that value. The columns \<open>id\<close> and \<open>created_at\<close> are filled
  in by the database and read by nothing below.
\<close>

record metadata =
  source :: jsstring
  chunkIndex :: nat
  fileType :: jsstring
  lastModifiedISO :: int

record document_chunk =
  chunk_id :: jsstring
  chunk_content :: jsstring
  embedding :: vector
  metadata :: metadata

record search_result =
  chunk :: document_chunk
  similarity :: number

text \<open>What a collaborator throws: the model client, or \<open>client.query\<close>.\<close>

datatype error = ProviderError | StoreError

text \<open>
  The state of the world: the table in insertion order, and the requests made so far to
  the database, the embedding model and the generative model.
\<close>

datatype call = Query | EmbedContent jsstring | GenerateContent jsstring

record world =
  table :: "document_chunk list"
  calls :: "call list"

text \<open>
  The behaviour of the collaborators, none of which is part of the repository. What a
  request returns may depend on when it is made: the first argument of
  \<open>embedding_values\<close>, \<open>generated_text\<close> and \<open>query_fails\<close> is the number of requests
  made before it. \<open>cosine_distance\<close> is pgvector's operator \<open><=>\<close> and \<open>basename\<close> is
  \<open>path.basename\<close>.
\<close>

record env =
  embedding_values :: "nat \<Rightarrow> jsstring \<Rightarrow> error + vector"
  generated_text :: "nat \<Rightarrow> jsstring \<Rightarrow> error + jsstring"
  query_fails :: "nat \<Rightarrow> bool"
  cosine_distance :: "vector \<Rightarrow> vector \<Rightarrow> number"
  basename :: "jsstring \<Rightarrow> jsstring"

definition embedContent :: "env \<Rightarrow> jsstring \<Rightarrow> world \<Rightarrow> (error + vector) \<times> world" where
  "embedContent env text w =
     (embedding_values env (length (calls w)) text, w\<lparr>calls := calls w @ [EmbedContent text]\<rparr>)"

definition generateContent :: "env \<Rightarrow> jsstring \<Rightarrow> world \<Rightarrow> (error + jsstring) \<times> world" where
  "generateContent env prompt w =
     (generated_text env (length (calls w)) prompt, w\<lparr>calls := calls w @ [GenerateContent prompt]\<rparr>)"

text \<open>
  \<open>client.query\<close>: a statement that fails changes nothing; one that succeeds returns
  its result and leaves the table as the statement makes it.
\<close>

definition client_query ::
  "env \<Rightarrow> (document_chunk list \<Rightarrow> 'a \<times> document_chunk list) \<Rightarrow> world \<Rightarrow> (error + 'a) \<times> world" where
  "client_query env statement w =
     (if query_fails env (length (calls w)) then (Inl StoreError, w\<lparr>calls := calls w @ [Query]\<rparr>)
      else (Inr (fst (statement (table w))),
            \<lparr>table = snd (statement (table w)), calls = calls w @ [Query]\<rparr>))"

text \<open>The rows \<open>WHERE metadata->>'source' = src\<close>.\<close>

definition records_of :: "jsstring \<Rightarrow> document_chunk list \<Rightarrow> document_chunk list" where
  "records_of src rows = filter (\<lambda>r. source (metadata r) = src) rows"

text \<open>\<open>DELETE FROM document_chunks WHERE metadata->>'source' = $1\<close>.\<close>

definition sql_delete_source :: "jsstring \<Rightarrow> document_chunk list \<Rightarrow> unit \<times> document_chunk list" where
  "sql_delete_source src rows = ((), filter (\<lambda>r. source (metadata r) \<noteq> src) rows)"

text \<open>\<open>INSERT INTO document_chunks (chunk_id, content, embedding, metadata) VALUES ...\<close>.\<close>

definition sql_insert :: "document_chunk \<Rightarrow> document_chunk list \<Rightarrow> unit \<times> document_chunk list" where
  "sql_insert row rows = ((), rows @ [row])"

text \<open>
  The statistics query, with the two counts of its result (\<open>COUNT( * )\<close> and
  \<open>COUNT(DISTINCT metadata->>'source')\<close>).
\<close>

record stats =
  totalChunks :: nat
  totalDocuments :: nat

definition sql_stats :: "document_chunk list \<Rightarrow> stats \<times> document_chunk list" where
  "sql_stats rows =
     (\<lparr>totalChunks = length rows,
       totalDocuments = length (remdups (map (\<lambda>r. source (metadata r)) rows))\<rparr>, rows)"

text \<open>
  The similarity query: the rows in ascending order of distance to the query vector (rows
  at the same distance in insertion order), at most \<open>topK\<close> of them, each with
  \<open>1 - distance\<close> as its similarity.
\<close>

definition sql_search ::
  "env \<Rightarrow> vector \<Rightarrow> nat \<Rightarrow> document_chunk list \<Rightarrow> (document_chunk \<times> number) list \<times> document_chunk list" where
  "sql_search env q topK rows =
     (map (\<lambda>r. (r, one_minus (cosine_distance env (embedding r) q)))
        (take topK (sort_key (\<lambda>r. float8_key (cosine_distance env (embedding r) q)) rows)), rows)"

section \<open>The document manager (document-manager.ts)\<close>

text \<open>\<open>getStats\<close> catches a failure of its query and reports zero counts.\<close>

definition getStats :: "env \<Rightarrow> world \<Rightarrow> stats \<times> world" where
  "getStats env w =
     (case client_query env sql_stats w of
        (Inl e, w1) \<Rightarrow> (\<lparr>totalChunks = 0, totalDocuments = 0\<rparr>, w1)
      | (Inr row, w1) \<Rightarrow> (row, w1))"

definition new_chunk :: "processed_file \<Rightarrow> nat \<Rightarrow> jsstring \<Rightarrow> vector \<Rightarrow> document_chunk" where
  "new_chunk file i text values =
     \<lparr>chunk_id = path file @ str ''_chunk_'' @ show_nat i,
      chunk_content = text,
      embedding = values,
      metadata = \<lparr>source = path file, chunkIndex = i, fileType = file_type file,
                  lastModifiedISO = lastModified file\<rparr>\<rparr>"

text \<open>
  The \<open>for\<close> loop of \<open>ingestFile\<close> over \<open>textChunks\<close>, from index \<open>i\<close> on. An exception
  leaves the loop; the \<open>catch\<close> block of \<open>ingestFile\<close> throws it again.
\<close>

fun insert_chunks ::
  "env \<Rightarrow> processed_file \<Rightarrow> jsstring list \<Rightarrow> nat \<Rightarrow> world \<Rightarrow> (error + unit) \<times> world" where
  "insert_chunks env file [] i w = (Inr (), w)"
| "insert_chunks env file (text # rest) i w =
     (case embedContent env text w of
        (Inl e, w1) \<Rightarrow> (Inl e, w1)
      | (Inr values, w1) \<Rightarrow>
          (case client_query env (sql_insert (new_chunk file i text values)) w1 of
             (Inl e, w2) \<Rightarrow> (Inl e, w2)
           | (Inr u, w2) \<Rightarrow> insert_chunks env file rest (Suc i) w2))"

declare insert_chunks.simps [simp del]

text \<open>
  \<open>ingestFile\<close>. The result is \<open>None\<close> if \<open>splitIntoChunks\<close> does not return, and
  otherwise the outcome of the call (\<open>Inl\<close> the exception thrown to the caller) with the
  world it leaves.
\<close>

definition ingestFile :: "env \<Rightarrow> processed_file \<Rightarrow> world \<Rightarrow> ((error + unit) \<times> world) option" where
  "ingestFile env file w =
     (case client_query env (sql_delete_source (path file)) w of
        (Inl e, w1) \<Rightarrow> Some (Inl e, w1)
      | (Inr u, w1) \<Rightarrow>
          (case splitIntoChunks (content file) 600 100 of
             None \<Rightarrow> None
           | Some textChunks \<Rightarrow> Some (insert_chunks env file textChunks 0 w1)))"

text \<open>
  The loop of the \<open>ingest\<close> command (cli.ts) over the discovered files, inside the
  command's \<open>try\<close> block: an exception of \<open>ingestFile\<close> leaves the loop.
\<close>

fun ingest_files :: "env \<Rightarrow> processed_file list \<Rightarrow> world \<Rightarrow> ((error + unit) \<times> world) option" where
  "ingest_files env [] w = Some (Inr (), w)"
| "ingest_files env (file # rest) w =
     (case ingestFile env file w of
        None \<Rightarrow> None
      | Some (Inl e, w1) \<Rightarrow> Some (Inl e, w1)
      | Some (Inr u, w1) \<Rightarrow> ingest_files env rest w1)"

definition searchSimilarChunks ::
  "env \<Rightarrow> jsstring \<Rightarrow> nat \<Rightarrow> world \<Rightarrow> (error + search_result list) \<times> world" where
  "searchSimilarChunks env query topK w =
     (case embedContent env query w of
        (Inl e, w1) \<Rightarrow> (Inl e, w1)
      | (Inr queryEmbedding, w1) \<Rightarrow>
          (case client_query env (sql_search env queryEmbedding topK) w1 of
             (Inl e, w2) \<Rightarrow> (Inl e, w2)
           | (Inr rows, w2) \<Rightarrow>
               (Inr (map (\<lambda>row. \<lparr>chunk = (fst row)\<lparr>embedding := []\<rparr>, similarity = snd row\<rparr>) rows), w2)))"

text \<open>The three fixed answers of \<open>askQuestion\<close>; each starts with an emoji.\<close>

definition no_documents :: jsstring where
  "no_documents = [0x274C] @
     str '' No documents have been ingested yet. Please ingest some documents first using --ingest.''"

definition no_relevant_information :: jsstring where
  "no_relevant_information = [0xD83E, 0xDD14] @ str '' I couldn'' @ [0x27] @
     str ''t find relevant information in the ingested documents to answer your question.''"

definition error_occurred :: jsstring where
  "error_occurred = [0x274C] @
     str '' An error occurred while processing your question. Please try again.''"

definition result_source :: "env \<Rightarrow> search_result \<Rightarrow> jsstring" where
  "result_source env result = basename env (source (metadata (chunk result)))"

definition context_of :: "env \<Rightarrow> search_result list \<Rightarrow> jsstring" where
  "context_of env searchResults =
     join ([0x0A, 0x0A] @ str ''---'' @ [0x0A, 0x0A])
       (map (\<lambda>result. str ''[Source: '' @ result_source env result @ str '']'' @ [0x0A] @
                        chunk_content (chunk result)) searchResults)"

definition prompt_of :: "jsstring \<Rightarrow> jsstring \<Rightarrow> jsstring" where
  "prompt_of context question =
     str ''You are a helpful assistant answering questions based on provided documentation.'' @
     [0x0A, 0x0A] @ str ''    Context from documents:'' @
     [0x0A] @ str ''    '' @ context @
     [0x0A, 0x0A] @ str ''    Question: '' @ question @
     [0x0A, 0x0A] @ str ''    Instructions:'' @
     [0x0A] @ str ''    - Answer based only on the provided context'' @
     [0x0A] @ str ''    - If the context doesn'' @ [0x27] @
       str ''t contain enough information, say so clearly'' @
     [0x0A] @ str ''    - Be specific and reference the sources when possible'' @
     [0x0A] @ str ''    - Keep the answer concise but complete'' @
     [0x0A] @ str ''    - Format your response in a friendly, conversational tone'' @
     [0x0A, 0x0A] @ str ''    Answer:''"

text \<open>
  \<open>Array.from(new Set(xs))\<close>: a \<open>Set\<close> keeps the first occurrence of each element, in
  insertion order.
\<close>

definition set_add :: "'a list \<Rightarrow> 'a \<Rightarrow> 'a list" where
  "set_add members x = (if x \<in> set members then members else members @ [x])"

definition array_from_set :: "'a list \<Rightarrow> 'a list" where
  "array_from_set xs = foldl set_add [] xs"

definition listed_sources :: "env \<Rightarrow> search_result list \<Rightarrow> jsstring list" where
  "listed_sources env searchResults = array_from_set (map (result_source env) searchResults)"

definition source_info :: "env \<Rightarrow> search_result list \<Rightarrow> jsstring" where
  "source_info env searchResults =
     [0x0A, 0x0A, 0xD83D, 0xDCDA] @ str '' Sources: '' @ join (str '', '') (listed_sources env searchResults)"

text \<open>
  \<open>askQuestion\<close>. \<open>getStats\<close> is called before the \<open>try\<close> block; every exception of
  the block is caught and answered with \<open>error_occurred\<close>.
\<close>

definition askQuestion :: "env \<Rightarrow> jsstring \<Rightarrow> nat \<Rightarrow> world \<Rightarrow> jsstring \<times> world" where
  "askQuestion env question maxResults w =
     (case getStats env w of
        (stats, w1) \<Rightarrow>
          if totalChunks stats = 0 then (no_documents, w1)
          else
            (case searchSimilarChunks env question maxResults w1 of
               (Inl e, w2) \<Rightarrow> (error_occurred, w2)
             | (Inr searchResults, w2) \<Rightarrow>
                 if searchResults = [] \<or> js_less (similarity (hd searchResults)) 0.3
                 then (no_relevant_information, w2)
                 else
                   (case generateContent env
                           (prompt_of (context_of env searchResults) question) w2 of
                      (Inl e, w3) \<Rightarrow> (error_occurred, w3)
                    | (Inr answer, w3) \<Rightarrow> (answer @ source_info env searchResults, w3))))"

subsection \<open>Vocabulary for the pipeline's properties\<close>

text \<open>A row as a search returns it, without its vector.\<close>

definition unembedded :: "document_chunk \<Rightarrow> document_chunk" where
  "unembedded r = r\<lparr>embedding := []\<rparr>"

text \<open>The rows of one ingestion of a file, without their vectors, numbered from \<open>i\<close>.\<close>

definition generation :: "processed_file \<Rightarrow> nat \<Rightarrow> jsstring list \<Rightarrow> document_chunk list" where
  "generation file i texts = map (\<lambda>(j, text). new_chunk file j text []) (enumerate i texts)"

text \<open>
  The rows of one source form one generation: they carry the chunk indices
  \<open>0, 1, 2, ...\<close> in insertion order, each once, the chunk identifiers made from them,
  and one snapshot of the file's type and modification time.
\<close>

definition generation_ok :: "jsstring \<Rightarrow> document_chunk list \<Rightarrow> bool" where
  "generation_ok src rows \<longleftrightarrow>
     map (\<lambda>r. chunkIndex (metadata r)) rows = [0..<length rows] \<and>
     (\<forall>r\<in>set rows.
        chunk_id r = src @ str ''_chunk_'' @ show_nat (chunkIndex (metadata r)) \<and>
        fileType (metadata r) = fileType (metadata (hd rows)) \<and>
        lastModifiedISO (metadata r) = lastModifiedISO (metadata (hd rows)))"

definition one_generation :: "document_chunk list \<Rightarrow> bool" where
  "one_generation rows \<longleftrightarrow>
     (\<forall>src\<in>set (map (\<lambda>r. source (metadata r)) rows). generation_ok src (records_of src rows))"

text \<open>
  The world after a sequence of \<open>ingestFile\<close> calls, one per file of the list, whatever
  the outcome of each call.
\<close>

fun after_ingests :: "env \<Rightarrow> processed_file list \<Rightarrow> world \<Rightarrow> world option" where
  "after_ingests env [] w = Some w"
| "after_ingests env (file # rest) w =
     (case ingestFile env file w of
        None \<Rightarrow> None
      | Some (outcome, w1) \<Rightarrow> after_ingests env rest w1)"

text \<open>
  What the insertion loop has done to the table when it ends: it has appended the first
  rows of the generation, all of them if it ended normally and not all if it threw.
\<close>

definition inserted ::
  "processed_file \<Rightarrow> nat \<Rightarrow> jsstring list \<Rightarrow> error + unit \<Rightarrow> world \<Rightarrow> world \<Rightarrow> bool" where
  "inserted file i texts res w w' \<longleftrightarrow>
     (\<exists>rows. table w' = table w @ rows \<and>
        map unembedded rows = take (length rows) (generation file i texts) \<and>
        (case res of Inr u \<Rightarrow> length rows = length texts | Inl e \<Rightarrow> length rows < length texts))"

definition replaced :: "processed_file \<Rightarrow> error + unit \<Rightarrow> world \<Rightarrow> world \<Rightarrow> bool" where
  "replaced file res w w' \<longleftrightarrow>
     (\<exists>chunks rows. splitIntoChunks (content file) 600 100 = Some chunks \<and>
        table w' = filter (\<lambda>r. source (metadata r) \<noteq> path file) (table w) @ rows \<and>
        map unembedded rows = take (length rows) (generation file 0 chunks) \<and>
        (case res of Inr u \<Rightarrow> length rows = length chunks | Inl e \<Rightarrow> length rows < length chunks))"

text \<open>
  The requests of a list, made one after the other from time \<open>t\<close> on, all succeeded.
\<close>

fun request_ok :: "env \<Rightarrow> nat \<Rightarrow> call \<Rightarrow> bool" where
  "request_ok env t Query \<longleftrightarrow> \<not> query_fails env t"
| "request_ok env t (EmbedContent text) \<longleftrightarrow> \<not> isl (embedding_values env t text)"
| "request_ok env t (GenerateContent prompt) \<longleftrightarrow> \<not> isl (generated_text env t prompt)"

fun succeeded :: "env \<Rightarrow> nat \<Rightarrow> call list \<Rightarrow> bool" where
  "succeeded env t [] \<longleftrightarrow> True"
| "succeeded env t (c # cs) \<longleftrightarrow> request_ok env t c \<and> succeeded env (Suc t) cs"

text \<open>The search results that reach the relevance threshold themselves.\<close>

definition passed_threshold :: "search_result list \<Rightarrow> search_result list" where
  "passed_threshold searchResults = filter (\<lambda>r. \<not> js_less (similarity r) 0.3) searchResults"

section \<open>Sample inputs\<close>

definition sample_text :: jsstring where
  "sample_text = str ''Hello world. This is a short text.''"

text \<open>Eleven code units with a line feed at index 6.\<close>

definition stall_text :: jsstring where
  "stall_text = replicate 6 0x61 @ [0x0A] @ replicate 4 0x61"

definition tail_text :: jsstring where
  "tail_text = replicate 550 0x61"

text \<open>Thirty letters, ten spaces, \<open>xyz\<close>, thirty-two spaces, thirty letters.\<close>

definition gap_text :: jsstring where
  "gap_text = replicate 30 0x61 @ replicate 10 0x20 @ str ''xyz'' @ replicate 32 0x20 @ replicate 30 0x62"

definition sample_json :: json where
  "sample_json =
     JObject [(str ''title'', JString (str ''A long enough title'')),
              (str ''tags'', JArray [JString (str ''x''), JNumber 3, JString (str ''a much longer tag'')]),
              (str ''id'', JString (str ''short''))]"

text \<open>The document \<open>{"b": "x", "2": "k2"}\<close>.\<close>

definition reordered_json :: json where
  "reordered_json = JObject [(str ''b'', JString (str ''x'')), (str ''2'', JString (str ''k2''))]"

text \<open>
  The document \<open>{"name": "n", "10": "the tenth entry", "9": ["nine"],
  "name": "a repeated name"}\<close>.
\<close>

definition keyed_json :: json where
  "keyed_json =
     JObject [(str ''name'', JString (str ''n'')),
              (str ''10'', JString (str ''the tenth entry'')),
              (str ''9'', JArray [JString (str ''nine'')]),
              (str ''name'', JString (str ''a repeated name''))]"

text \<open>
  Collaborators that never fail. The vectors used below are \<open>[1, 0]\<close> and \<open>[0, 1]\<close>,
  whose cosine distance is 0 from themselves and 1 from each other; the file names used
  below contain no directory, so they are their own base names.
\<close>

definition demo_env :: env where
  "demo_env =
     \<lparr>embedding_values = (\<lambda>t text. Inr [1, 0]),
      generated_text = (\<lambda>t prompt. Inr (str ''TypeScript adds static types.'')),
      query_fails = (\<lambda>t. False),
      cosine_distance = (\<lambda>a b. if a = b then Num 0 else Num 1),
      basename = (\<lambda>p. p)\<rparr>"

text \<open>An embedding model that fails once: on the request made after three others.\<close>

definition flaky_env :: env where
  "flaky_env = demo_env\<lparr>embedding_values := (\<lambda>t text. if t = 3 then Inl ProviderError else Inr [1, 0])\<rparr>"

text \<open>An embedding model that fails once: on the request made after one other.\<close>

definition once_env :: env where
  "once_env = demo_env\<lparr>embedding_values := (\<lambda>t text. if t = 1 then Inl ProviderError else Inr [1, 0])\<rparr>"

text \<open>An embedding model that fails once: on the request made after four others.\<close>

definition late_env :: env where
  "late_env = demo_env\<lparr>embedding_values := (\<lambda>t text. if t = 4 then Inl ProviderError else Inr [1, 0])\<rparr>"

definition file_a :: processed_file where
  "file_a = \<lparr>path = str ''a.md'', content = sample_text, file_type = str ''md'',
     file_size = 34, lastModified = 1000\<rparr>"

definition file_b :: processed_file where
  "file_b = \<lparr>path = str ''b.md'', content = sample_text, file_type = str ''md'',
     file_size = 34, lastModified = 2000\<rparr>"

definition tail_file :: processed_file where
  "tail_file = \<lparr>path = str ''a.md'', content = tail_text, file_type = str ''md'',
     file_size = 550, lastModified = 3000\<rparr>"

definition chunk_a :: document_chunk where
  "chunk_a = new_chunk file_a 0 sample_text [1, 0]"

definition chunk_b :: document_chunk where
  "chunk_b = new_chunk file_b 0 sample_text [0, 1]"

definition empty_store :: world where
  "empty_store = \<lparr>table = [], calls = []\<rparr>"

definition two_sources :: world where
  "two_sources = \<lparr>table = [chunk_a, chunk_b], calls = []\<rparr>"

definition far_source :: world where
  "far_source = \<lparr>table = [chunk_b], calls = []\<rparr>"

definition demo_question :: jsstring where
  "demo_question = str ''What is TypeScript?''"

definition result_a :: search_result where
  "result_a = \<lparr>chunk = unembedded chunk_a, similarity = Num 1\<rparr>"

definition result_b :: search_result where
  "result_b = \<lparr>chunk = unembedded chunk_b, similarity = Num 0\<rparr>"

definition half_replaced :: world where
  "half_replaced =
     \<lparr>table = [chunk_b, new_chunk tail_file 0 (replicate 550 0x61) [1, 0] ],
      calls = [Query, EmbedContent (replicate 550 0x61), Query, EmbedContent (replicate 50 0x61)]\<rparr>"

definition once_ingested :: world where
  "once_ingested = \<lparr>table = [chunk_a], calls = [Query, EmbedContent sample_text, Query]\<rparr>"

definition twice_ingested :: world where
  "twice_ingested = \<lparr>table = [chunk_a],
     calls = [Query, EmbedContent sample_text, Query, Query, EmbedContent sample_text, Query]\<rparr>"

definition aborted :: world where
  "aborted = \<lparr>table = [], calls = [Query, EmbedContent sample_text]\<rparr>"

definition later :: world where
  "later = \<lparr>table = [new_chunk file_b 0 sample_text [1, 0] ],
     calls = [Query, EmbedContent sample_text, Query, EmbedContent sample_text, Query]\<rparr>"

definition b_ingested :: world where
  "b_ingested = \<lparr>table = [new_chunk file_b 0 sample_text [1, 0] ],
     calls = [Query, EmbedContent sample_text, Query]\<rparr>"

definition b_then_aborted :: world where
  "b_then_aborted = \<lparr>table = [new_chunk file_b 0 sample_text [1, 0] ],
     calls = [Query, EmbedContent sample_text, Query, Query, EmbedContent sample_text]\<rparr>"

section \<open>Properties of the string operations\<close>

lemma last_match_range: "- 1 \<le> last_match s pat k \<and> last_match s pat k \<le> int k"
  by (induction k) auto

lemma lastIndexOf_upper: "0 \<le> pos \<Longrightarrow> lastIndexOf s pat pos \<le> pos"
proof -
  assume pos: "0 \<le> pos"
  define k where "k = nat (min (max pos 0) (int (length s - length pat)))"
  have "last_match s pat k \<le> int k" using last_match_range by blast
  moreover have "int k \<le> pos" using pos by (simp add: k_def)
  moreover have "lastIndexOf s pat pos = (if length s < length pat then - 1 else last_match s pat k)"
    unfolding lastIndexOf_def k_def ..
  ultimately show ?thesis using pos by simp
qed

lemma js_slice_length:
  "0 \<le> a \<Longrightarrow> 0 \<le> b \<Longrightarrow> int (length (js_slice s a b)) \<le> max 0 (b - a)"
  by (auto simp: js_slice_def Let_def)

lemma trim_length: "length (trim s) \<le> length s"
proof -
  have "length (dropWhile is_space (rev (dropWhile is_space s))) \<le> length (rev (dropWhile is_space s))"
    by (rule length_dropWhile_le)
  also have "\<dots> \<le> length s" by (simp add: length_dropWhile_le)
  finally show ?thesis by (simp add: trim_def)
qed

lemma trim_idem: "trim (trim s) = trim s"
proof -
  define u where "u = dropWhile is_space s"
  define v where "v = dropWhile is_space (rev u)"
  have t: "trim s = rev v" by (simp add: trim_def u_def v_def)
  have v_hd: "v \<noteq> [] \<Longrightarrow> \<not> is_space (hd v)" unfolding v_def by (rule hd_dropWhile)
  have u_hd: "u \<noteq> [] \<Longrightarrow> \<not> is_space (hd u)" unfolding u_def by (rule hd_dropWhile)
  have "\<exists>p. rev u = p @ v" unfolding v_def by (metis takeWhile_dropWhile_id)
  then obtain p where p: "rev u = p @ v" ..
  have last: "v \<noteq> [] \<Longrightarrow> \<not> is_space (last v)"
  proof -
    assume ne: "v \<noteq> []"
    have "u = rev v @ rev p" using p by (metis rev_append rev_rev_ident)
    with ne have "hd u = hd (rev v)" by simp
    moreover have "u \<noteq> []" using p ne by auto
    ultimately show ?thesis using u_hd ne by (simp add: hd_rev)
  qed
  have a: "dropWhile is_space (rev v) = rev v"
    using last by (cases "v = []") (simp_all add: dropWhile_eq_self_iff hd_rev)
  have b: "dropWhile is_space v = v"
    using v_hd by (cases "v = []") (simp_all add: dropWhile_eq_self_iff)
  show ?thesis unfolding t by (simp add: trim_def a b)
qed

section \<open>Properties of the chunker\<close>

lemma find_break_cases:
  "find_break doc start cs e bcs = - 1 \<or>
   (\<exists>bc\<in>set bcs. find_break doc start cs e bcs = lastIndexOf doc bc e + int (length bc) \<and>
       2 * start + cs < 2 * lastIndexOf doc bc e)"
  by (induction bcs) (auto simp: Let_def)

lemma breakChars_length: "bc \<in> set breakChars \<Longrightarrow> 1 \<le> length bc \<and> length bc \<le> 2"
  by (auto simp: breakChars_def)

lemma window_end_cases:
  "window_end doc cs start = start + cs \<or>
   (start + cs < int (length doc) \<and>
    (\<exists>bc\<in>set breakChars. window_end doc cs start = lastIndexOf doc bc (start + cs) + int (length bc) \<and>
       2 * start + cs < 2 * lastIndexOf doc bc (start + cs)))"
  using find_break_cases [of doc start cs "start + cs" breakChars]
  by (auto simp: window_end_def Let_def)

text \<open>
  Forward progress: a window that ends at a delimiter ends more than half a chunk size
  after its start, and any other window ends a full chunk size after it.
\<close>

lemma window_end_progress:
  assumes "ov < cs" "2 * ov \<le> cs + 2"
  shows "start < window_end doc cs start - ov"
  using window_end_cases [of doc cs start] assms breakChars_length
  by fastforce

lemma scan_exit: "int (length doc) \<le> start \<Longrightarrow> scan doc cs ov start ws = Some ws"
  by (subst scan.simps) simp

lemma scan_step: "start < int (length doc) \<Longrightarrow>
  scan doc cs ov start ws = scan doc cs ov (window_end doc cs start - ov) (ws @ [(start, window_end doc cs start)])"
  by (subst scan.simps) (simp add: Let_def)

text \<open>The loop of the source and its recording: the chunks are those of the windows.\<close>

lemma chunk_loop_of_scan:
  assumes "scan doc cs ov start ws = Some r"
  shows "chunk_loop doc cs ov start (map (chunk_of doc) ws) = Some (map (chunk_of doc) r)"
proof (rule scan.raw_induct [where P = "\<lambda>doc cs ov start ws r.
    chunk_loop doc cs ov start (map (chunk_of doc) ws) = Some (map (chunk_of doc) r)", OF _ assms], goal_cases)
  case (1 scan' doc cs ov start ws r)
  show ?case
  proof (cases "start < int (length doc)")
    case True
    with 1(2) have "scan' doc cs ov (window_end doc cs start - ov) (ws @ [(start, window_end doc cs start)]) = Some r"
      by (simp add: Let_def)
    from 1(1) [OF this] show ?thesis using True
      by (subst chunk_loop.simps) (simp add: Let_def chunk_of_def)
  next
    case False
    with 1(2) show ?thesis by (subst chunk_loop.simps) simp
  qed
qed

lemma scan_of_chunk_loop:
  assumes "chunk_loop doc cs ov start cks = Some y"
  shows "\<forall>ws. cks = map (chunk_of doc) ws \<longrightarrow>
    (\<exists>r. scan doc cs ov start ws = Some r \<and> y = map (chunk_of doc) r)"
proof (rule chunk_loop.raw_induct [where P = "\<lambda>doc cs ov start cks y.
    \<forall>ws. cks = map (chunk_of doc) ws \<longrightarrow>
      (\<exists>r. scan doc cs ov start ws = Some r \<and> y = map (chunk_of doc) r)", OF _ assms], goal_cases)
  case (1 loop' doc cs ov start cks y)
  show ?case
  proof (intro allI impI)
    fix ws assume c: "cks = map (chunk_of doc) ws"
    show "\<exists>r. scan doc cs ov start ws = Some r \<and> y = map (chunk_of doc) r"
    proof (cases "start < int (length doc)")
      case True
      let ?e = "window_end doc cs start"
      from True 1(2) have "loop' doc cs ov (?e - ov) (cks @ [trim (js_slice doc start ?e)]) = Some y"
        by (simp add: Let_def)
      from 1(1) [OF this] c
      have "\<exists>r. scan doc cs ov (?e - ov) (ws @ [(start, ?e)]) = Some r \<and> y = map (chunk_of doc) r"
        by (simp add: chunk_of_def)
      then show ?thesis using True by (simp add: scan_step)
    next
      case False
      with 1(2) c show ?thesis by (simp add: scan_exit)
    qed
  qed
qed

lemma chunk_loop_scan:
  "chunk_loop doc cs ov start (map (chunk_of doc) ws) =
     map_option (map (chunk_of doc)) (scan doc cs ov start ws)"
proof (cases "scan doc cs ov start ws")
  case (Some r)
  then show ?thesis by (simp add: chunk_loop_of_scan)
next
  case None
  show ?thesis
  proof (cases "chunk_loop doc cs ov start (map (chunk_of doc) ws)")
    case (Some y)
    from scan_of_chunk_loop [OF this] have "\<exists>r. scan doc cs ov start ws = Some r" by blast
    with None show ?thesis by simp
  next
    case None': None
    with None show ?thesis by simp
  qed
qed

lemma splitIntoChunks_windows:
  "splitIntoChunks doc cs ov =
     map_option (\<lambda>ws. filter long_enough (map (chunk_of doc) ws)) (scan doc cs ov 0 [])"
  using chunk_loop_scan [of doc cs ov 0 "[]"]
  by (simp add: splitIntoChunks_def option.map_comp comp_def)

lemma scan_returns:
  assumes "ov < cs" "2 * ov \<le> cs + 2"
  shows "\<exists>r. scan doc cs ov start ws = Some r"
proof (induction "nat (int (length doc) - start)" arbitrary: start ws rule: less_induct)
  case less
  show ?case
  proof (cases "start < int (length doc)")
    case True
    let ?e = "window_end doc cs start"
    have "start < ?e - ov" using assms by (rule window_end_progress)
    with True have "nat (int (length doc) - (?e - ov)) < nat (int (length doc) - start)" by linarith
    from less [OF this] show ?thesis using True by (simp add: scan_step)
  next
    case False
    then show ?thesis by (simp add: scan_exit)
  qed
qed

lemma splitIntoChunks_default: "\<exists>chunks. splitIntoChunks doc 600 100 = Some chunks"
proof -
  have "(100::int) < 600" and "2 * (100::int) \<le> 600 + 2" by simp_all
  from scan_returns [OF this] obtain r where "scan doc 600 100 0 [] = Some r" by blast
  then show ?thesis by (simp add: splitIntoChunks_windows)
qed

lemma sample_length: "int (length sample_text) = 34"
  by (simp add: sample_text_def str_def)

lemma sample_trim: "trim sample_text = sample_text"
  by code_simp

text \<open>
  C4, as amended. For all parameters with \<open>overlap < chunkSize\<close> and
  \<open>2 * overlap \<le> chunkSize + 2\<close> (the only parameters in use, 600 and 100, are such),
  every iteration of the scan loop makes forward progress (the new start,
  \<open>end - overlap\<close>, strictly exceeds the previous start), the loop exits as soon as
  \<open>start \<ge> length text\<close>, and \<open>splitIntoChunks\<close> returns.
\<close>

theorem splitIntoChunks_terminates:
  assumes "overlap < chunkSize" and "2 * overlap \<le> chunkSize + 2"
  shows "start < window_end doc chunkSize start - overlap \<and>
         (int (length doc) \<le> stop \<longrightarrow> scan doc chunkSize overlap stop ws = Some ws) \<and>
         (\<exists>chunks. splitIntoChunks doc chunkSize overlap = Some chunks)"
proof (intro conjI impI)
  show "start < window_end doc chunkSize start - overlap" using assms by (rule window_end_progress)
  show "scan doc chunkSize overlap stop ws = Some ws" if "int (length doc) \<le> stop"
    using that by (rule scan_exit)
  from scan_returns [OF assms] obtain r where "scan doc chunkSize overlap 0 [] = Some r" by blast
  then show "\<exists>chunks. splitIntoChunks doc chunkSize overlap = Some chunks"
    by (simp add: splitIntoChunks_windows)
qed

text \<open>The amended C4 at the sample text, with the parameters 600 and 100.\<close>

theorem splitIntoChunks_terminates_witness:
  "(100::int) < 600 \<and> 2 * (100::int) \<le> 600 + 2 \<and> 0 < window_end sample_text 600 0 - 100 \<and>
   int (length sample_text) \<le> 34 \<and> scan sample_text 600 100 34 [] = Some [] \<and>
   (\<exists>chunks. splitIntoChunks sample_text 600 100 = Some chunks)"
  using splitIntoChunks_terminates [of 100 600 0 sample_text 34 "[]"] sample_length by simp

lemma stall_length: "int (length stall_text) = 11"
  by (simp add: stall_text_def)

lemma stall_end_0: "window_end stall_text 10 0 = 7"
  by code_simp

lemma stall_end_back: "window_end stall_text 10 (- 2) = 7"
  by code_simp

text \<open>
  With chunk size 10 and overlap 9 the scan of \<open>stall_text\<close> never leaves the starts 0
  and -2: a run that returned would have to return from one of them.
\<close>

lemma stall_scan:
  assumes "scan doc cs ov start ws = Some y"
  shows "doc = stall_text \<longrightarrow> cs = 10 \<longrightarrow> ov = 9 \<longrightarrow> start = 0 \<or> start = - 2 \<longrightarrow> False"
proof (rule scan.raw_induct [where P = "\<lambda>doc cs ov start ws y.
    doc = stall_text \<longrightarrow> cs = 10 \<longrightarrow> ov = 9 \<longrightarrow> start = 0 \<or> start = - 2 \<longrightarrow> False", OF _ assms], goal_cases)
  case (1 scan' doc cs ov start ws y)
  show ?case
  proof (intro impI)
    assume a: "doc = stall_text" "cs = 10" "ov = 9" "start = 0 \<or> start = - 2"
    from a(4) have e: "window_end stall_text 10 start = 7"
      using stall_end_0 stall_end_back by auto
    from a(4) have lt: "start < int (length stall_text)" by (auto simp: stall_length)
    from 1(2) have "scan' stall_text 10 9 (- 2) (ws @ [(start, 7)]) = Some y"
      using a lt e by (simp add: Let_def)
    from 1(1) [OF this] show False by simp
  qed
qed

lemma stall_None: "scan stall_text 10 9 0 [] = None"
proof (cases "scan stall_text 10 9 0 []")
  case (Some y)
  from stall_scan [OF this] show ?thesis by simp
qed simp

text \<open>
  C4 as stated fails: overlap 9 is positive and below chunk size 10, yet on \<open>stall_text\<close>
  the first iteration moves the start from 0 back to -2, and \<open>splitIntoChunks\<close> never
  returns.
\<close>

theorem splitIntoChunks_stall_counterexample:
  "(0::int) < 9 \<and> (9::int) < 10 \<and> (0::int) < int (length stall_text) \<and>
   window_end stall_text 10 0 - 9 < 0 \<and> splitIntoChunks stall_text 10 9 = None"
  by (simp add: stall_length stall_end_0 splitIntoChunks_windows stall_None)

lemma chunk_of_whole: "int (length doc) \<le> e \<Longrightarrow> chunk_of doc (0, e) = trim doc"
  by (simp add: chunk_of_def js_slice_def Let_def)

lemma split_empty: "splitIntoChunks [] cs ov = Some []"
  by (simp add: splitIntoChunks_windows scan_exit)

lemma split_short:
  assumes "int (length doc) < cs" and "int (length doc) \<le> cs - ov"
  shows "splitIntoChunks doc cs ov = Some (if long_enough (trim doc) then [trim doc] else [])"
proof (cases "doc = []")
  case True
  then show ?thesis by (simp add: split_empty trim_def long_enough_def)
next
  case False
  then have pos: "0 < int (length doc)" by simp
  have e: "window_end doc cs 0 = cs" using assms(1) by (simp add: window_end_def)
  have "scan doc cs ov 0 [] = scan doc cs ov (cs - ov) [(0, cs)]"
    using pos by (simp add: scan_step e)
  also have "\<dots> = Some [(0, cs)]" using assms(2) by (rule scan_exit)
  finally show ?thesis using assms(1) by (simp add: splitIntoChunks_windows chunk_of_whole)
qed

lemma sample_split: "splitIntoChunks sample_text 600 100 = Some [sample_text]"
  using split_short [of sample_text 600 100] sample_length sample_trim
  by (simp add: long_enough_def)

text \<open>
  C5, as amended. \<open>splitIntoChunks\<close> applied to the empty string yields the empty
  sequence, and for every text shorter than \<open>chunkSize\<close> and no longer than
  \<open>chunkSize - overlap\<close> it yields exactly one passage, the whole trimmed text, if that
  passage is longer than 20, and no passage otherwise.
\<close>

theorem splitIntoChunks_short:
  assumes "int (length doc) < chunkSize" and "int (length doc) \<le> chunkSize - overlap"
  shows "splitIntoChunks [] chunkSize overlap = Some [] \<and>
         splitIntoChunks doc chunkSize overlap =
           Some (if long_enough (trim doc) then [trim doc] else [])"
  using assms by (simp add: split_empty split_short)

text \<open>The amended C5 at the sample text, with the parameters 600 and 100.\<close>

theorem splitIntoChunks_short_witness:
  "int (length sample_text) < 600 \<and> int (length sample_text) \<le> 600 - 100 \<and>
   splitIntoChunks [] 600 100 = Some [] \<and>
   splitIntoChunks sample_text 600 100 = Some [sample_text]"
  using splitIntoChunks_short [of sample_text 600 100] sample_length sample_trim
  by (simp add: long_enough_def)

lemma tail_length: "int (length tail_text) = 550"
  by (simp add: tail_text_def)

lemma tail_chunk_1: "chunk_of tail_text (0, 600) = replicate 550 0x61"
  by code_simp

lemma tail_chunk_2: "chunk_of tail_text (500, 1100) = replicate 50 0x61"
  by code_simp

lemma tail_scan: "scan tail_text 600 100 0 [] = Some [(0, 600), (500, 1100)]"
proof -
  have e1: "window_end tail_text 600 0 = 600" by (simp add: window_end_def tail_length)
  have e2: "window_end tail_text 600 500 = 1100" by (simp add: window_end_def tail_length)
  have "scan tail_text 600 100 0 [] = scan tail_text 600 100 500 [(0, 600)]"
    using scan_step [of 0 tail_text 600 100 "[]"] by (simp add: tail_length e1)
  also have "\<dots> = scan tail_text 600 100 1000 [(0, 600), (500, 1100)]"
    using scan_step [of 500 tail_text 600 100 "[(0, 600)]"] by (simp add: tail_length e2)
  also have "\<dots> = Some [(0, 600), (500, 1100)]" by (rule scan_exit) (simp add: tail_length)
  finally show ?thesis .
qed

lemma tail_split: "splitIntoChunks tail_text 600 100 = Some [replicate 550 0x61, replicate 50 0x61]"
  by (simp add: splitIntoChunks_windows tail_scan tail_chunk_1 tail_chunk_2 long_enough_def)

text \<open>
  C5 as stated fails: a text of 550 code units is not empty and shorter than the chunk
  size 600, and its trimmed text passes the length filter, yet \<open>splitIntoChunks\<close>
  yields two passages: the whole text and, again, its last 50 code units.
\<close>

theorem splitIntoChunks_short_counterexample:
  "tail_text \<noteq> [] \<and> int (length tail_text) < 600 \<and> long_enough (trim tail_text) \<and>
   splitIntoChunks tail_text 600 100 = Some [replicate 550 0x61, replicate 50 0x61]"
proof -
  have ne: "tail_text \<noteq> []" using tail_length by auto
  have t: "trim tail_text = replicate 550 0x61"
    using chunk_of_whole [of tail_text 600] tail_chunk_1 tail_length by simp
  show ?thesis using ne tail_length by (simp add: tail_split t long_enough_def)
qed

lemma chunk_of_length:
  "0 \<le> fst w \<Longrightarrow> 0 \<le> snd w \<Longrightarrow> int (length (chunk_of doc w)) \<le> max 0 (snd w - fst w)"
  using trim_length [of "js_slice doc (fst w) (snd w)"] js_slice_length [of "fst w" "snd w" doc]
  by (simp add: chunk_of_def)

lemma window_ok_bound:
  "window_ok doc cs w \<Longrightarrow> 0 \<le> cs \<Longrightarrow> 0 \<le> fst w \<Longrightarrow> 0 \<le> snd w \<Longrightarrow> chunk_bound doc cs w"
  using chunk_of_length [of w doc] unfolding window_ok_def chunk_bound_def
  by (elim disjE bexE conjE) (auto intro!: bexI)

lemma window_end_ok:
  assumes "0 \<le> start + cs"
  shows "window_ok doc cs (start, window_end doc cs start)"
proof -
  from window_end_cases [of doc cs start] show ?thesis
  proof (elim disjE conjE bexE)
    assume "window_end doc cs start = start + cs"
    then show ?thesis by (simp add: window_ok_def)
  next
    fix bc
    assume bc: "bc \<in> set breakChars"
      and e: "window_end doc cs start = lastIndexOf doc bc (start + cs) + int (length bc)"
    have "lastIndexOf doc bc (start + cs) \<le> start + cs" using assms by (rule lastIndexOf_upper)
    with e have "window_end doc cs start - start \<le> cs + int (length bc)" by linarith
    with bc e show ?thesis unfolding window_ok_def by (intro disjI2 bexI [of _ bc]) simp_all
  qed
qed

lemma scan_inv_step:
  assumes good: "0 \<le> ov" "ov < cs" "2 * ov \<le> cs + 2"
    and inv: "scan_inv doc cs ov start ws" and lt: "start < int (length doc)"
  shows "scan_inv doc cs ov (window_end doc cs start - ov) (ws @ [(start, window_end doc cs start)])"
proof -
  let ?e = "window_end doc cs start"
  have prog: "start < ?e - ov" using good(2,3) by (rule window_end_progress)
  have s0: "0 \<le> start" using inv by (simp add: scan_inv_def)
  have ok: "window_ok doc cs (start, ?e)" using s0 good by (intro window_end_ok) simp
  have old: "\<forall>w\<in>set ws. 0 \<le> fst w \<and> fst w < snd w \<and> fst w < int (length doc) \<and> fst w < start \<and>
        snd w - ov \<le> start \<and> window_ok doc cs w" using inv by (simp add: scan_inv_def)
  have adj: "ws \<noteq> [] \<Longrightarrow> adjacent doc ov (last ws) (start, ?e)"
    using inv lt good(1) by (auto simp: scan_inv_def adjacent_def shared_def)
  have succ: "successively (adjacent doc ov) (ws @ [(start, ?e)])"
    using inv adj by (auto simp: scan_inv_def successively_append_iff)
  have sw: "sorted_wrt (\<lambda>w w'. shared doc w w' \<le> ov) (ws @ [(start, ?e)])"
    using inv old by (auto simp: scan_inv_def sorted_wrt_append shared_def)
  show ?thesis
    unfolding scan_inv_def using prog s0 ok old succ sw lt good(1) by auto
qed

lemma scan_inv_result:
  assumes good: "0 \<le> ov" "ov < cs" "2 * ov \<le> cs + 2"
  shows "scan_inv doc cs ov start ws \<Longrightarrow>
    \<exists>r start'. scan doc cs ov start ws = Some r \<and> scan_inv doc cs ov start' r"
proof (induction "nat (int (length doc) - start)" arbitrary: start ws rule: less_induct)
  case less
  show ?case
  proof (cases "start < int (length doc)")
    case True
    let ?e = "window_end doc cs start"
    have "start < ?e - ov" using good(2,3) by (rule window_end_progress)
    with True have m: "nat (int (length doc) - (?e - ov)) < nat (int (length doc) - start)" by linarith
    have "scan_inv doc cs ov (?e - ov) (ws @ [(start, ?e)])"
      using good less.prems True by (rule scan_inv_step)
    from less.hyps [OF m this] show ?thesis using True by (simp add: scan_step)
  next
    case False
    with less.prems show ?thesis by (auto simp: scan_exit)
  qed
qed

lemma scan_inv_init: "scan_inv doc cs ov 0 []"
  by (simp add: scan_inv_def)

lemma splitIntoChunks_kept:
  "splitIntoChunks doc cs ov = map_option (\<lambda>ws. map (chunk_of doc) (kept doc ws)) (scan doc cs ov 0 [])"
  by (simp add: splitIntoChunks_windows kept_def filter_map comp_def)

text \<open>
  C6, as amended. For all parameters with \<open>0 \<le> overlap < chunkSize\<close> and
  \<open>2 * overlap \<le> chunkSize + 2\<close>, the scan returns a list of windows of which
  \<open>splitIntoChunks\<close> returns the chunks longer than 20, and
  \<^item> the chunk of every window is at most \<open>chunkSize\<close> long, or \<open>chunkSize\<close> plus the
    length of the delimiter that ended the window;
  \<^item> every returned chunk is trimmed and longer than 20;
  \<^item> each window of the scan starts exactly \<open>overlap\<close> before the end of the window
    before it, and shares between 0 and \<open>overlap\<close> code units of the text with it;
  \<^item> consecutive returned chunks share at most \<open>overlap\<close> code units (nothing is
    claimed from below: a dropped chunk leaves a gap between its neighbours).
\<close>

theorem splitIntoChunks_bounds:
  assumes "0 \<le> overlap" and "overlap < chunkSize" and "2 * overlap \<le> chunkSize + 2"
  shows "\<exists>ws. scan doc chunkSize overlap 0 [] = Some ws \<and>
           splitIntoChunks doc chunkSize overlap = Some (map (chunk_of doc) (kept doc ws)) \<and>
           (\<forall>w\<in>set ws. chunk_bound doc chunkSize w) \<and>
           (\<forall>w\<in>set (kept doc ws). 20 < length (chunk_of doc w) \<and> trim (chunk_of doc w) = chunk_of doc w) \<and>
           successively (adjacent doc overlap) ws \<and>
           successively (\<lambda>w w'. shared doc w w' \<le> overlap) (kept doc ws)"
proof -
  from scan_inv_result [OF assms scan_inv_init]
  obtain ws start' where s: "scan doc chunkSize overlap 0 [] = Some ws"
    and inv: "scan_inv doc chunkSize overlap start' ws" by blast
  have cs: "0 \<le> chunkSize" using assms by simp
  have b: "\<forall>w\<in>set ws. chunk_bound doc chunkSize w"
    using inv cs by (auto simp: scan_inv_def intro!: window_ok_bound)
  have k: "\<forall>w\<in>set (kept doc ws). 20 < length (chunk_of doc w) \<and> trim (chunk_of doc w) = chunk_of doc w"
    by (auto simp: kept_def long_enough_def chunk_of_def trim_idem)
  have a: "successively (adjacent doc overlap) ws" using inv by (simp add: scan_inv_def)
  have "sorted_wrt (\<lambda>w w'. shared doc w w' \<le> overlap) (kept doc ws)"
    using inv unfolding kept_def scan_inv_def by (intro sorted_wrt_filter) simp
  then have c: "successively (\<lambda>w w'. shared doc w w' \<le> overlap) (kept doc ws)"
    by (rule successively_if_sorted_wrt)
  show ?thesis using s b k a c by (auto simp: splitIntoChunks_kept)
qed

text \<open>The amended C6 at \<open>gap_text\<close>, with chunk size 40 and overlap 5.\<close>

theorem splitIntoChunks_bounds_witness:
  "(0::int) \<le> 5 \<and> (5::int) < 40 \<and> 2 * (5::int) \<le> 40 + 2 \<and>
   (\<exists>ws. scan gap_text 40 5 0 [] = Some ws \<and>
           splitIntoChunks gap_text 40 5 = Some (map (chunk_of gap_text) (kept gap_text ws)) \<and>
           (\<forall>w\<in>set ws. chunk_bound gap_text 40 w) \<and>
           (\<forall>w\<in>set (kept gap_text ws).
              20 < length (chunk_of gap_text w) \<and> trim (chunk_of gap_text w) = chunk_of gap_text w) \<and>
           successively (adjacent gap_text 5) ws \<and>
           successively (\<lambda>w w'. shared gap_text w w' \<le> 5) (kept gap_text ws))"
  using splitIntoChunks_bounds [of 5 40 gap_text] by simp

lemma gap_length: "int (length gap_text) = 105"
  by (simp add: gap_text_def str_def)

lemma gap_end_1: "window_end gap_text 40 0 = 40"
  by code_simp

lemma gap_end_2: "window_end gap_text 40 35 = 75"
  by code_simp

lemma gap_end_3: "window_end gap_text 40 70 = 110"
  by (simp add: window_end_def gap_length)

lemma gap_chunk_1: "chunk_of gap_text (0, 40) = replicate 30 0x61"
  by code_simp

lemma gap_chunk_2: "chunk_of gap_text (35, 75) = str ''xyz''"
  by code_simp

lemma gap_chunk_3: "chunk_of gap_text (70, 110) = replicate 30 0x62"
  by code_simp

lemma gap_scan: "scan gap_text 40 5 0 [] = Some [(0, 40), (35, 75), (70, 110)]"
proof -
  have "scan gap_text 40 5 0 [] = scan gap_text 40 5 35 [(0, 40)]"
    using scan_step [of 0 gap_text 40 5 "[]"] by (simp add: gap_length gap_end_1)
  also have "\<dots> = scan gap_text 40 5 70 [(0, 40), (35, 75)]"
    using scan_step [of 35 gap_text 40 5 "[(0, 40)]"] by (simp add: gap_length gap_end_2)
  also have "\<dots> = scan gap_text 40 5 105 [(0, 40), (35, 75), (70, 110)]"
    using scan_step [of 70 gap_text 40 5 "[(0, 40), (35, 75)]"] by (simp add: gap_length gap_end_3)
  also have "\<dots> = Some [(0, 40), (35, 75), (70, 110)]" by (rule scan_exit) (simp add: gap_length)
  finally show ?thesis .
qed

lemma gap_kept: "kept gap_text [(0, 40), (35, 75), (70, 110)] = [(0, 40), (70, 110)]"
  by (simp add: kept_def gap_chunk_1 gap_chunk_2 gap_chunk_3 long_enough_def str_def)

text \<open>
  C6 as stated fails in its last part: with chunk size 40 and overlap 5 the scan of
  \<open>gap_text\<close> has three windows, the chunk \<open>xyz\<close> of the middle one is dropped, and
  the two returned chunks, consecutive in the result, come from the windows \<open>(0, 40)\<close>
  and \<open>(70, 110)\<close>: their overlap is negative, a gap of 30 code units.
\<close>

theorem splitIntoChunks_overlap_counterexample:
  "splitIntoChunks gap_text 40 5 = Some [replicate 30 0x61, replicate 30 0x62] \<and>
   kept gap_text (the (scan gap_text 40 5 0 [])) = [(0, 40), (70, 110)] \<and>
   shared gap_text (0, 40) (70, 110) < 0"
  by (simp add: splitIntoChunks_kept gap_scan gap_kept gap_chunk_1 gap_chunk_3 shared_def gap_length)

section \<open>Properties of the JSON text extraction\<close>

lemmas json_eval =
  object_entries_def own_properties_def is_array_index_def index_value_def str_def

lemma join_equations:
  "join sep [] = []"
  "join sep [p] = p"
  "join sep (p # q # ps) = p @ sep @ join sep (q # ps)"
  by (simp_all add: join_def)

lemma is_array_index_samples:
  "is_array_index (str ''0'')" "is_array_index (str ''2'')" "is_array_index (str ''4294967294'')"
  "\<not> is_array_index (str ''4294967295'')" "\<not> is_array_index (str ''02'')"
  "\<not> is_array_index (str ''-1'')" "\<not> is_array_index (str ''1.5'')" "\<not> is_array_index (str ''b'')"
  "\<not> is_array_index []"
  by (simp_all add: is_array_index_def index_value_def str_def)

lemma object_entries_samples:
  "object_entries [(str ''b'', x), (str ''2'', y)] = [(str ''2'', y), (str ''b'', x)]"
  "object_entries [(str ''a'', x), (str ''b'', y), (str ''a'', z)] = [(str ''a'', z), (str ''b'', y)]"
  "object_entries [(str ''10'', x), (str ''9'', y), (str ''10'', z)] = [(str ''9'', y), (str ''10'', z)]"
  by (simp_all add: json_eval)

lemma emitted_entry_eq:
  "emitted_entry (key, val) =
     (if long_string val then [key @ str '': '' @ string_value val] else emitted val)"
  by (cases val) simp_all

lemma extractText_emitted:
  "extractText data prefix parts = parts @ emitted data"
  "extractItems items index prefix parts = parts @ concat (map emitted items)"
  "extractEntries entries prefix parts = parts @ concat (map emitted_entry entries)"
  by (induction data prefix parts and items index prefix parts and entries prefix parts
      rule: extractText_extractItems_extractEntries.induct)
     (simp_all add: emitted_entry_eq)

text \<open>
  Members with pairwise different keys become the properties of the object in the order
  of the document, and without array indices \<open>Object.entries\<close> keeps that order.
\<close>

lemma own_properties_distinct:
  "distinct (map fst (props @ ms)) \<Longrightarrow> foldl define_property props ms = props @ ms"
proof (induction ms arbitrary: props)
  case Nil
  show ?case by simp
next
  case (Cons m ms)
  obtain k v where m: "m = (k, v)" by (cases m)
  from Cons.prems m have "k \<notin> fst ` set props" by auto
  then have "define_property props m = props @ [m]" by (simp add: m)
  moreover from Cons.prems have "distinct (map fst ((props @ [m]) @ ms))" by simp
  ultimately show ?case using Cons.IH [of "props @ [m]"] by simp
qed

lemma object_entries_plain:
  assumes "distinct (map fst ms)" and "\<forall>m \<in> set ms. \<not> is_array_index (fst m)"
  shows "object_entries ms = ms"
proof -
  from assms(1) have "own_properties ms = ms"
    using own_properties_distinct [of "[]" ms] by (simp add: own_properties_def)
  moreover from assms(2) have "filter (\<lambda>e. is_array_index (fst e)) ms = []"
    by (simp add: filter_empty_conv)
  moreover from assms(2) have "filter (\<lambda>e. \<not> is_array_index (fst e)) ms = ms"
    by (simp add: filter_id_conv)
  ultimately show ?thesis by (simp add: object_entries_def)
qed

lemma emitted_plain:
  "plain data \<Longrightarrow> emitted data = emitted_document data"
  "plain (snd e) \<Longrightarrow> emitted_entry e = document_entry e"
proof (induction data and e rule: emitted_document_document_entry.induct)
  case (2 items)
  then have "\<forall>x \<in> set items. emitted x = emitted_document x" by simp
  then have "map emitted items = map emitted_document items" by (simp only: map_eq_conv)
  then show ?case by (simp only: emitted.simps emitted_document.simps)
next
  case (3 members)
  then have "object_entries members = members" by (simp add: object_entries_plain)
  moreover from 3 have "\<forall>m \<in> set members. emitted_entry m = document_entry m" by simp
  then have "map emitted_entry members = map document_entry members" by (simp only: map_eq_conv)
  ultimately show ?case by (simp only: emitted.simps emitted_document.simps)
qed simp_all

text \<open>
  C10 fails as stated: the traversal does not follow the document where an object has a
  key that is an array index. For the document \<open>{"b": "x", "2": "k2"}\<close> the code
  returns \<open>k2\<close>, an empty line, \<open>x\<close>, whereas the document-order traversal gives
  \<open>x\<close>, an empty line, \<open>k2\<close>.
\<close>

theorem extractTextFromJson_document_order_counterexample:
  "extractTextFromJson reordered_json = str ''k2'' @ [0x0A, 0x0A] @ str ''x'' \<and>
   join [0x0A, 0x0A] (emitted_document reordered_json) = str ''x'' @ [0x0A, 0x0A] @ str ''k2'' \<and>
   extractTextFromJson reordered_json \<noteq> join [0x0A, 0x0A] (emitted_document reordered_json)"
  by (simp add: extractTextFromJson_def reordered_json_def json_eval join_def)

text \<open>
  C10, as amended. For every JSON value, \<open>extractTextFromJson\<close> returns the strings
  that a depth-first traversal emits, joined by two line feeds, where the traversal
  visits the elements of an array in document order and the entries of an object in the
  order of \<open>Object.entries\<close> (the keys that are array indices first, in ascending
  numeric order, then the other keys in document order; a key written more than once
  counts once, at its first place and with its last value): an object entry whose value
  is a string longer than 10 is emitted as \<open>key: value\<close>, every other string leaf (an
  array element, a string of length at most 10, a string at the top) without a key; a
  value without string leaves gives the empty string. For a value in which no object
  has a repeated key or a key that is an array index, this is the document-order
  traversal.
\<close>

theorem extractTextFromJson_entries_order:
  "extractTextFromJson data = join [0x0A, 0x0A] (emitted data) \<and>
   (emitted data = [] \<longrightarrow> extractTextFromJson data = []) \<and>
   (plain data \<longrightarrow> extractTextFromJson data = join [0x0A, 0x0A] (emitted_document data))"
proof -
  have "extractText data [] [] = emitted data" by (simp add: extractText_emitted)
  then have a: "extractTextFromJson data = join [0x0A, 0x0A] (emitted data)"
    by (simp add: extractTextFromJson_def)
  then have b: "emitted data = [] \<longrightarrow> extractTextFromJson data = []"
    by (simp add: join_equations)
  from a have c: "plain data \<longrightarrow>
      extractTextFromJson data = join [0x0A, 0x0A] (emitted_document data)"
    by (simp add: emitted_plain)
  from a b c show ?thesis by blast
qed

text \<open>
  C10, as amended, at an object with array-index keys and a repeated key, at a plain
  object, and at a value without string leaves.
\<close>

theorem extractTextFromJson_entries_order_witness:
  "extractTextFromJson keyed_json =
     str ''nine'' @ [0x0A, 0x0A] @ str ''10: the tenth entry'' @ [0x0A, 0x0A] @
     str ''name: a repeated name'' \<and>
   plain sample_json \<and>
   extractTextFromJson sample_json =
     str ''title: A long enough title'' @ [0x0A, 0x0A] @ str ''x'' @ [0x0A, 0x0A] @
     str ''a much longer tag'' @ [0x0A, 0x0A] @ str ''short'' \<and>
   emitted (JArray [JNumber 1, JNull]) = [] \<and> extractTextFromJson (JArray [JNumber 1, JNull]) = []"
proof -
  have e1: "join [0x0A, 0x0A] (emitted keyed_json) =
      str ''nine'' @ [0x0A, 0x0A] @ str ''10: the tenth entry'' @ [0x0A, 0x0A] @
      str ''name: a repeated name''"
    by (simp add: keyed_json_def json_eval join_def)
  have p: "plain sample_json" by (simp add: sample_json_def json_eval)
  have e2: "join [0x0A, 0x0A] (emitted_document sample_json) =
      str ''title: A long enough title'' @ [0x0A, 0x0A] @ str ''x'' @ [0x0A, 0x0A] @
      str ''a much longer tag'' @ [0x0A, 0x0A] @ str ''short''"
    by (simp add: sample_json_def json_eval join_def)
  have e3: "emitted (JArray [JNumber 1, JNull]) = []" by simp
  from extractTextFromJson_entries_order [of keyed_json]
  have a: "extractTextFromJson keyed_json =
      str ''nine'' @ [0x0A, 0x0A] @ str ''10: the tenth entry'' @ [0x0A, 0x0A] @
      str ''name: a repeated name''"
    by (simp only: e1)
  from extractTextFromJson_entries_order [of sample_json] p
  have "extractTextFromJson sample_json = join [0x0A, 0x0A] (emitted_document sample_json)"
    by blast
  then have b: "extractTextFromJson sample_json =
      str ''title: A long enough title'' @ [0x0A, 0x0A] @ str ''x'' @ [0x0A, 0x0A] @
      str ''a much longer tag'' @ [0x0A, 0x0A] @ str ''short''"
    by (simp only: e2)
  from extractTextFromJson_entries_order [of "JArray [JNumber 1, JNull]"] e3
  have c: "extractTextFromJson (JArray [JNumber 1, JNull]) = []" by blast
  from a p b e3 c show ?thesis by blast
qed

section \<open>Properties of \<open>askQuestion\<close>\<close>

lemma getStats_empty:
  "table w = [] \<Longrightarrow>
   getStats env w = (\<lparr>totalChunks = 0, totalDocuments = 0\<rparr>, w\<lparr>calls := calls w @ [Query]\<rparr>)"
  by (simp add: getStats_def client_query_def sql_stats_def)

lemma getStats_calls: "getStats env w = (st, w') \<Longrightarrow> calls w' = calls w @ [Query]"
  by (auto simp: getStats_def client_query_def split: if_splits)

lemma searchSimilarChunks_calls:
  "searchSimilarChunks env query topK w = (Inr results, w') \<Longrightarrow>
   calls w' = calls w @ [EmbedContent query, Query]"
  by (auto simp: searchSimilarChunks_def embedContent_def client_query_def
      split: sum.splits if_splits prod.splits)

text \<open>
  C9. For every question asked against a store without records, \<open>askQuestion\<close> returns
  the "no documents ingested" answer as its result, and the only request it makes is the
  statistics query: neither the embedding model nor the generative model is called.
\<close>

theorem askQuestion_empty_store:
  assumes "table w = []"
  shows "askQuestion env question maxResults w = (no_documents, w\<lparr>calls := calls w @ [Query]\<rparr>)"
  using assms by (simp add: askQuestion_def getStats_empty)

text \<open>C9 at the empty store.\<close>

theorem askQuestion_empty_store_witness:
  "table empty_store = [] \<and>
   askQuestion demo_env demo_question 4 empty_store = (no_documents, empty_store\<lparr>calls := [Query]\<rparr>)"
  using askQuestion_empty_store [of empty_store demo_env demo_question 4]
  by (simp add: empty_store_def)

text \<open>
  C1, as amended. For every query against a store for which the statistics query reports
  a count other than zero: if the search returns no results, or results whose first
  (top-ranked) similarity is below 0.3, then \<open>askQuestion\<close> returns the "no relevant
  information" answer, after the statistics query, the embedding of the question and the
  search query and no other request: the generative model is not called.
\<close>

theorem askQuestion_threshold_gate:
  assumes "getStats env w = (st, w1)" and "totalChunks st \<noteq> 0"
    and "searchSimilarChunks env question maxResults w1 = (Inr searchResults, w2)"
    and "searchResults = [] \<or> js_less (similarity (hd searchResults)) 0.3"
  shows "askQuestion env question maxResults w = (no_relevant_information, w2) \<and>
         calls w2 = calls w @ [Query, EmbedContent question, Query]"
  using assms searchSimilarChunks_calls [OF assms(3)] getStats_calls [OF assms(1)]
  by (auto simp: askQuestion_def)

lemmas demo_defs = demo_env_def chunk_a_def chunk_b_def new_chunk_def two_sources_def far_source_def
  empty_store_def result_a_def result_b_def unembedded_def

lemma two_sources_stats:
  "getStats demo_env two_sources =
     (\<lparr>totalChunks = 2, totalDocuments = 2\<rparr>, two_sources\<lparr>calls := [Query]\<rparr>)"
  by (simp add: getStats_def client_query_def sql_stats_def demo_defs file_a_def file_b_def str_def)

lemma two_sources_search:
  "searchSimilarChunks demo_env demo_question 4 (two_sources\<lparr>calls := [Query]\<rparr>) =
     (Inr [result_a, result_b], two_sources\<lparr>calls := [Query, EmbedContent demo_question, Query]\<rparr>)"
  by (simp add: searchSimilarChunks_def embedContent_def client_query_def sql_search_def
      float8_key_def one_minus_def demo_defs)

lemma far_source_stats:
  "getStats demo_env far_source =
     (\<lparr>totalChunks = 1, totalDocuments = 1\<rparr>, far_source\<lparr>calls := [Query]\<rparr>)"
  by (simp add: getStats_def client_query_def sql_stats_def demo_defs)

lemma far_source_search:
  "searchSimilarChunks demo_env demo_question 4 (far_source\<lparr>calls := [Query]\<rparr>) =
     (Inr [result_b], far_source\<lparr>calls := [Query, EmbedContent demo_question, Query]\<rparr>)"
  by (simp add: searchSimilarChunks_def embedContent_def client_query_def sql_search_def
      float8_key_def one_minus_def demo_defs)

lemma empty_store_search:
  "searchSimilarChunks demo_env demo_question 4 empty_store =
     (Inr [], empty_store\<lparr>calls := [EmbedContent demo_question, Query]\<rparr>)"
  by (simp add: searchSimilarChunks_def embedContent_def client_query_def sql_search_def demo_defs)

lemma sentinels_differ: "no_documents \<noteq> no_relevant_information"
  by (simp add: no_documents_def no_relevant_information_def)

text \<open>
  The amended C1 at a store whose only chunk is orthogonal to the question: the top
  similarity is 0.
\<close>

theorem askQuestion_threshold_gate_witness:
  "getStats demo_env far_source = (\<lparr>totalChunks = 1, totalDocuments = 1\<rparr>, far_source\<lparr>calls := [Query]\<rparr>) \<and>
   js_less (similarity (hd [result_b])) 0.3 \<and>
   askQuestion demo_env demo_question 4 far_source =
     (no_relevant_information, far_source\<lparr>calls := [Query, EmbedContent demo_question, Query]\<rparr>)"
proof -
  have low: "js_less (similarity (hd [result_b])) 0.3" by (simp add: result_b_def js_less_def)
  then have "[result_b] = [] \<or> js_less (similarity (hd [result_b])) 0.3" ..
  from askQuestion_threshold_gate [OF far_source_stats _ far_source_search this] low far_source_stats
  show ?thesis by simp
qed

text \<open>
  C1 as stated fails: on the empty store the search returns no results, yet
  \<open>askQuestion\<close> returns the "no documents ingested" answer, which is not the "no
  relevant information" answer.
\<close>

theorem askQuestion_threshold_gate_counterexample:
  "searchSimilarChunks demo_env demo_question 4 empty_store =
     (Inr [], empty_store\<lparr>calls := [EmbedContent demo_question, Query]\<rparr>) \<and>
   askQuestion demo_env demo_question 4 empty_store = (no_documents, empty_store\<lparr>calls := [Query]\<rparr>) \<and>
   no_documents \<noteq> no_relevant_information"
proof -
  have "table empty_store = []" and "calls empty_store = []" by (simp_all add: empty_store_def)
  then have "askQuestion demo_env demo_question 4 empty_store =
      (no_documents, empty_store\<lparr>calls := [Query]\<rparr>)"
    by (simp add: askQuestion_def getStats_empty)
  with empty_store_search sentinels_differ show ?thesis by simp
qed

lemma set_foldl_set_add: "set (foldl set_add acc xs) = set acc \<union> set xs"
  by (induction xs arbitrary: acc) (auto simp: set_add_def)

lemma distinct_foldl_set_add: "distinct acc \<Longrightarrow> distinct (foldl set_add acc xs)"
  by (induction xs arbitrary: acc) (auto simp: set_add_def)

lemma set_listed_sources: "set (listed_sources env rs) = result_source env ` set rs"
  by (simp add: listed_sources_def array_from_set_def set_foldl_set_add)

lemma distinct_listed_sources: "distinct (listed_sources env rs)"
  by (simp add: listed_sources_def array_from_set_def distinct_foldl_set_add)

text \<open>
  C7, as amended. For every answer of \<open>askQuestion\<close> for which the generative model is
  called, the source identifiers appended to the answer are, without repetition and in
  order of rank, the base names of the sources of all the chunks the search returned,
  which are exactly the chunks written into the context of the prompt: never more, never
  fewer. Only the top-ranked chunk is compared with the relevance threshold.
\<close>

theorem askQuestion_sources:
  assumes "getStats env w = (st, w1)" and "totalChunks st \<noteq> 0"
    and "searchSimilarChunks env question maxResults w1 = (Inr searchResults, w2)"
    and "searchResults \<noteq> []" and "\<not> js_less (similarity (hd searchResults)) 0.3"
    and "generateContent env (prompt_of (context_of env searchResults) question) w2 = (Inr answer, w3)"
  shows "askQuestion env question maxResults w =
           (answer @ [0x0A, 0x0A, 0xD83D, 0xDCDA] @ str '' Sources: '' @
              join (str '', '') (listed_sources env searchResults), w3) \<and>
         listed_sources env searchResults = array_from_set (map (result_source env) searchResults) \<and>
         set (listed_sources env searchResults) = result_source env ` set searchResults \<and>
         distinct (listed_sources env searchResults) \<and>
         calls w3 = calls w2 @ [GenerateContent (prompt_of (context_of env searchResults) question)]"
proof -
  have "calls w3 = calls w2 @ [GenerateContent (prompt_of (context_of env searchResults) question)]"
    using assms(6) by (auto simp: generateContent_def)
  then have "askQuestion env question maxResults w =
           (answer @ [0x0A, 0x0A, 0xD83D, 0xDCDA] @ str '' Sources: '' @
              join (str '', '') (listed_sources env searchResults), w3) \<and>
         calls w3 = calls w2 @ [GenerateContent (prompt_of (context_of env searchResults) question)]"
    using assms by (simp add: askQuestion_def source_info_def)
  moreover have "listed_sources env searchResults = array_from_set (map (result_source env) searchResults)"
    by (simp add: listed_sources_def)
  moreover note set_listed_sources [of env searchResults] distinct_listed_sources [of env searchResults]
  ultimately show ?thesis by blast
qed

lemma two_sources_generate:
  "generateContent demo_env p (two_sources\<lparr>calls := [Query, EmbedContent demo_question, Query]\<rparr>) =
     (Inr (str ''TypeScript adds static types.''),
      two_sources\<lparr>calls := [Query, EmbedContent demo_question, Query, GenerateContent p]\<rparr>)"
  by (simp add: generateContent_def demo_env_def)

lemma two_sources_listed: "listed_sources demo_env [result_a, result_b] = [str ''a.md'', str ''b.md'']"
  by (simp add: listed_sources_def array_from_set_def set_add_def result_source_def demo_defs
      file_a_def file_b_def str_def)

lemma two_sources_top: "\<not> js_less (similarity (hd [result_a, result_b])) 0.3"
  by (simp add: result_a_def js_less_def)

text \<open>
  The amended C7 at a store with one chunk of each of two sources, the first at similarity
  1 and the second at similarity 0: both are listed.
\<close>

theorem askQuestion_sources_witness:
  "[result_a, result_b] \<noteq> [] \<and> \<not> js_less (similarity (hd [result_a, result_b])) 0.3 \<and>
   askQuestion demo_env demo_question 4 two_sources =
     (str ''TypeScript adds static types.'' @ [0x0A, 0x0A, 0xD83D, 0xDCDA] @ str '' Sources: '' @
        join (str '', '') [str ''a.md'', str ''b.md''],
      two_sources\<lparr>calls := [Query, EmbedContent demo_question, Query,
        GenerateContent (prompt_of (context_of demo_env [result_a, result_b]) demo_question)]\<rparr>)"
  using askQuestion_sources [OF two_sources_stats _ two_sources_search _ two_sources_top two_sources_generate]
    two_sources_top
  by (simp add: two_sources_listed)

lemma two_sources_passed: "passed_threshold [result_a, result_b] = [result_a]"
  by (simp add: passed_threshold_def js_less_def result_a_def result_b_def)

lemma result_a_source: "result_source demo_env result_a = str ''a.md''"
  by (simp add: result_source_def demo_defs file_a_def)

text \<open>
  C7 as stated fails: in that store the answer lists \<open>a.md\<close> and \<open>b.md\<close>, but the only
  retrieved chunk that reaches the relevance threshold is the one of \<open>a.md\<close>; the
  chunk of \<open>b.md\<close>, at similarity 0, is in the context and among the sources all the
  same.
\<close>

theorem askQuestion_sources_counterexample:
  "fst (askQuestion demo_env demo_question 4 two_sources) =
     str ''TypeScript adds static types.'' @ [0x0A, 0x0A, 0xD83D, 0xDCDA] @ str '' Sources: '' @
        join (str '', '') [str ''a.md'', str ''b.md''] \<and>
   map (result_source demo_env) (passed_threshold [result_a, result_b]) = [str ''a.md''] \<and>
   str ''b.md'' \<notin> set [str ''a.md'']"
proof -
  have "fst (askQuestion demo_env demo_question 4 two_sources) =
     str ''TypeScript adds static types.'' @ source_info demo_env [result_a, result_b]"
    using two_sources_top
    by (simp add: askQuestion_def two_sources_stats two_sources_search two_sources_generate)
  moreover have "str ''b.md'' \<notin> set [str ''a.md'']" by (simp add: str_def)
  ultimately show ?thesis
    by (simp add: source_info_def two_sources_listed two_sources_passed result_a_source)
qed

section \<open>Properties of ingestion\<close>

lemma unembedded_new_chunk: "unembedded (new_chunk f i t v) = new_chunk f i t []"
  by (simp add: unembedded_def new_chunk_def)

lemma generation_Cons: "generation f i (t # ts) = new_chunk f i t [] # generation f (Suc i) ts"
  by (simp add: generation_def)

lemma generation_Nil: "generation f i [] = []"
  by (simp add: generation_def)

lemma length_generation: "length (generation f i ts) = length ts"
  by (simp add: generation_def)

lemma insert_chunks_Nil: "insert_chunks env f [] i w = (Inr (), w)"
  by (simp add: insert_chunks.simps)

lemma insert_chunks_embed_fails:
  "embedding_values env (length (calls w)) t = Inl e \<Longrightarrow>
   insert_chunks env f (t # ts) i w = (Inl e, w\<lparr>calls := calls w @ [EmbedContent t]\<rparr>)"
  by (simp add: insert_chunks.simps embedContent_def)

lemma insert_chunks_insert_fails:
  "embedding_values env (length (calls w)) t = Inr v \<Longrightarrow> query_fails env (Suc (length (calls w))) \<Longrightarrow>
   insert_chunks env f (t # ts) i w = (Inl StoreError, w\<lparr>calls := calls w @ [EmbedContent t, Query]\<rparr>)"
  by (simp add: insert_chunks.simps embedContent_def client_query_def)

lemma insert_chunks_step:
  "embedding_values env (length (calls w)) t = Inr v \<Longrightarrow> \<not> query_fails env (Suc (length (calls w))) \<Longrightarrow>
   insert_chunks env f (t # ts) i w =
     insert_chunks env f ts (Suc i)
       \<lparr>table = table w @ [new_chunk f i t v], calls = calls w @ [EmbedContent t, Query]\<rparr>"
  by (simp add: insert_chunks.simps embedContent_def client_query_def sql_insert_def)

lemma inserted_none: "table w' = table w \<Longrightarrow> inserted f i (t # ts) (Inl e) w w'"
  unfolding inserted_def by (intro exI [of _ "[]"]) simp

lemma inserted_step:
  assumes "inserted f (Suc i) ts res w2 w'" and "table w2 = table w @ [new_chunk f i t v]"
  shows "inserted f i (t # ts) res w w'"
proof -
  from assms(1) obtain rows where r: "table w' = table w2 @ rows"
    "map unembedded rows = take (length rows) (generation f (Suc i) ts)"
    "case res of Inr u \<Rightarrow> length rows = length ts | Inl e \<Rightarrow> length rows < length ts"
    unfolding inserted_def by blast
  have a: "table w' = table w @ (new_chunk f i t v # rows)" using r(1) assms(2) by simp
  have b: "map unembedded (new_chunk f i t v # rows) =
            take (length (new_chunk f i t v # rows)) (generation f i (t # ts))"
    using r(2) by (simp add: generation_Cons unembedded_new_chunk)
  have c: "case res of Inr u \<Rightarrow> length (new_chunk f i t v # rows) = length (t # ts)
            | Inl e \<Rightarrow> length (new_chunk f i t v # rows) < length (t # ts)"
    using r(3) by (simp split: sum.splits)
  from a b c show ?thesis unfolding inserted_def by blast
qed

lemma insert_chunks_inserted:
  "insert_chunks env f texts i w = (res, w') \<Longrightarrow> inserted f i texts res w w'"
proof (induction texts arbitrary: i w)
  case Nil
  then have "res = Inr ()" and "w' = w" by (simp_all add: insert_chunks_Nil)
  then show ?case by (simp add: inserted_def generation_Nil)
next
  case (Cons t ts)
  note prems = Cons.prems
  show ?case
  proof (cases "embedding_values env (length (calls w)) t")
    case (Inl e)
    have "(res, w') = insert_chunks env f (t # ts) i w" using prems by (rule sym)
    also have "\<dots> = (Inl e, w\<lparr>calls := calls w @ [EmbedContent t]\<rparr>)"
      using Inl by (rule insert_chunks_embed_fails)
    finally have "res = Inl e" and "table w' = table w" by simp_all
    then show ?thesis by (simp add: inserted_none)
  next
    case (Inr v)
    show ?thesis
    proof (cases "query_fails env (Suc (length (calls w)))")
      case True
      have "(res, w') = insert_chunks env f (t # ts) i w" using prems by (rule sym)
      also have "\<dots> = (Inl StoreError, w\<lparr>calls := calls w @ [EmbedContent t, Query]\<rparr>)"
        using Inr True by (rule insert_chunks_insert_fails)
      finally have "res = Inl StoreError" and "table w' = table w" by simp_all
      then show ?thesis by (simp add: inserted_none)
    next
      case False
      define w2 where "w2 = \<lparr>table = table w @ [new_chunk f i t v], calls = calls w @ [EmbedContent t, Query]\<rparr>"
      have "insert_chunks env f ts (Suc i) w2 = insert_chunks env f (t # ts) i w"
        unfolding w2_def using Inr False by (rule insert_chunks_step [symmetric])
      then have "insert_chunks env f ts (Suc i) w2 = (res, w')" using prems by (rule trans)
      then have "inserted f (Suc i) ts res w2 w'" by (rule Cons.IH)
      moreover have "table w2 = table w @ [new_chunk f i t v]" by (simp add: w2_def)
      ultimately show ?thesis by (rule inserted_step)
    qed
  qed
qed

lemma source_unembedded: "source (metadata (unembedded r)) = source (metadata r)"
  by (simp add: unembedded_def)

lemma generation_source: "r \<in> set (generation f i ts) \<Longrightarrow> source (metadata r) = path f"
proof (induction ts arbitrary: i)
  case Nil
  then show ?case by (simp add: generation_Nil)
next
  case (Cons t ts)
  from Cons.prems have "r = new_chunk f i t [] \<or> r \<in> set (generation f (Suc i) ts)"
    by (simp add: generation_Cons)
  then show ?case
  proof
    assume "r = new_chunk f i t []"
    then show ?thesis by (simp add: new_chunk_def)
  next
    assume "r \<in> set (generation f (Suc i) ts)"
    then show ?thesis by (rule Cons.IH)
  qed
qed

lemma prefix_rows_source:
  assumes "map unembedded rows = take n (generation f i ts)" and "r \<in> set rows"
  shows "source (metadata r) = path f"
proof -
  from assms(2) have "unembedded r \<in> set (map unembedded rows)" by simp
  then have "unembedded r \<in> set (take n (generation f i ts))" by (simp only: assms(1))
  then have "unembedded r \<in> set (generation f i ts)" by (rule in_set_takeD)
  then have "source (metadata (unembedded r)) = path f" by (rule generation_source)
  then show ?thesis by (simp only: source_unembedded)
qed

lemma ingestFile_delete_fails:
  "query_fails env (length (calls w)) \<Longrightarrow>
   ingestFile env f w = Some (Inl StoreError, w\<lparr>calls := calls w @ [Query]\<rparr>)"
  by (simp add: ingestFile_def client_query_def)

lemma ingestFile_deleted:
  "\<not> query_fails env (length (calls w)) \<Longrightarrow> splitIntoChunks (content f) 600 100 = Some chunks \<Longrightarrow>
   ingestFile env f w =
     Some (insert_chunks env f chunks 0
       \<lparr>table = filter (\<lambda>r. source (metadata r) \<noteq> path f) (table w), calls = calls w @ [Query]\<rparr>)"
  by (simp add: ingestFile_def client_query_def sql_delete_source_def)

text \<open>\<open>ingestFile\<close> always returns: with the chunk size 600 and the overlap 100 the scan ends.\<close>

lemma ingestFile_returns: "\<exists>outcome. ingestFile env f w = Some outcome"
proof (cases "query_fails env (length (calls w))")
  case True
  then show ?thesis by (simp add: ingestFile_delete_fails)
next
  case False
  from splitIntoChunks_default obtain chunks where "splitIntoChunks (content f) 600 100 = Some chunks" ..
  with False show ?thesis by (simp add: ingestFile_deleted)
qed

lemma ingestFile_table:
  assumes "ingestFile env f w = Some (res, w')"
  shows "(res = Inl StoreError \<and> table w' = table w) \<or> replaced f res w w'"
proof (cases "query_fails env (length (calls w))")
  case True
  have "Some (res, w') = ingestFile env f w" using assms by (rule sym)
  also have "\<dots> = Some (Inl StoreError, w\<lparr>calls := calls w @ [Query]\<rparr>)"
    using True by (rule ingestFile_delete_fails)
  finally have "res = Inl StoreError" and "table w' = table w" by auto
  then show ?thesis by simp
next
  case False
  define w1 where "w1 = \<lparr>table = filter (\<lambda>r. source (metadata r) \<noteq> path f) (table w), calls = calls w @ [Query]\<rparr>"
  from splitIntoChunks_default obtain chunks where c: "splitIntoChunks (content f) 600 100 = Some chunks" ..
  from assms ingestFile_deleted [OF False c] have "insert_chunks env f chunks 0 w1 = (res, w')"
    by (simp add: w1_def)
  then have "inserted f 0 chunks res w1 w'" by (rule insert_chunks_inserted)
  then obtain rows where "table w' = table w1 @ rows"
    "map unembedded rows = take (length rows) (generation f 0 chunks)"
    "case res of Inr u \<Rightarrow> length rows = length chunks | Inl e \<Rightarrow> length rows < length chunks"
    unfolding inserted_def by blast
  with c have "replaced f res w w'" unfolding replaced_def w1_def by auto
  then show ?thesis ..
qed

lemma replaced_records:
  assumes "replaced f res w w'"
  shows "\<exists>chunks. splitIntoChunks (content f) 600 100 = Some chunks \<and>
      map unembedded (records_of (path f) (table w')) =
        take (length (records_of (path f) (table w'))) (generation f 0 chunks) \<and>
      (case res of Inr u \<Rightarrow> length (records_of (path f) (table w')) = length chunks
         | Inl e \<Rightarrow> length (records_of (path f) (table w')) < length chunks)"
    and "src \<noteq> path f \<Longrightarrow> records_of src (table w') = records_of src (table w)"
proof -
  from assms obtain chunks rows where c: "splitIntoChunks (content f) 600 100 = Some chunks"
    and t: "table w' = filter (\<lambda>r. source (metadata r) \<noteq> path f) (table w) @ rows"
    and g: "map unembedded rows = take (length rows) (generation f 0 chunks)"
    and l: "case res of Inr u \<Rightarrow> length rows = length chunks | Inl e \<Rightarrow> length rows < length chunks"
    unfolding replaced_def by blast
  have all: "\<forall>r\<in>set rows. source (metadata r) = path f"
    using prefix_rows_source [OF g] by blast
  then have fl: "filter (\<lambda>r. source (metadata r) = path f) rows = rows" by simp
  have rec: "records_of (path f) (table w') = rows"
    by (simp add: records_of_def t fl)
  show "\<exists>chunks. splitIntoChunks (content f) 600 100 = Some chunks \<and>
      map unembedded (records_of (path f) (table w')) =
        take (length (records_of (path f) (table w'))) (generation f 0 chunks) \<and>
      (case res of Inr u \<Rightarrow> length (records_of (path f) (table w')) = length chunks
         | Inl e \<Rightarrow> length (records_of (path f) (table w')) < length chunks)"
    unfolding rec using c g l by blast
  assume ne: "src \<noteq> path f"
  with all have "filter (\<lambda>r. source (metadata r) = src) rows = []" by (auto simp: filter_empty_conv)
  moreover have "filter (\<lambda>r. source (metadata r) = src) (filter (\<lambda>r. source (metadata r) \<noteq> path f) (table w))
      = filter (\<lambda>r. source (metadata r) = src) (table w)"
    using ne by (auto intro: filter_cong)
  ultimately show "records_of src (table w') = records_of src (table w)"
    by (simp add: records_of_def t)
qed

lemma generation_nth:
  "j < length ts \<Longrightarrow> generation f i ts ! j = new_chunk f (i + j) (ts ! j) []"
  by (simp add: generation_def nth_enumerate_eq)

lemma unembedded_fields:
  "chunk_id (unembedded r) = chunk_id r" "metadata (unembedded r) = metadata r"
  by (simp_all add: unembedded_def)

lemma prefix_row_nth:
  assumes g: "map unembedded rows = take n (generation f 0 chunks)" and j: "j < length rows"
  shows "chunk_id (rows ! j) = path f @ str ''_chunk_'' @ show_nat j"
    and "metadata (rows ! j) = \<lparr>source = path f, chunkIndex = j, fileType = file_type f,
            lastModifiedISO = lastModified f\<rparr>"
proof -
  have len: "length rows = length (take n (generation f 0 chunks))"
    using g by (metis length_map)
  then have jn: "j < n" and jc: "j < length chunks" using j by (simp_all add: length_generation)
  have "unembedded (rows ! j) = map unembedded rows ! j" using j by simp
  also have "\<dots> = take n (generation f 0 chunks) ! j" by (simp only: g)
  also have "\<dots> = new_chunk f j (chunks ! j) []" using jn jc by (simp add: generation_nth)
  finally have u: "unembedded (rows ! j) = new_chunk f j (chunks ! j) []" .
  have "chunk_id (rows ! j) = chunk_id (unembedded (rows ! j))" by (simp add: unembedded_fields)
  also have "\<dots> = path f @ str ''_chunk_'' @ show_nat j" by (simp add: u new_chunk_def)
  finally show "chunk_id (rows ! j) = path f @ str ''_chunk_'' @ show_nat j" .
  have "metadata (rows ! j) = metadata (unembedded (rows ! j))" by (simp add: unembedded_fields)
  also have "\<dots> = \<lparr>source = path f, chunkIndex = j, fileType = file_type f,
            lastModifiedISO = lastModified f\<rparr>" by (simp add: u new_chunk_def)
  finally show "metadata (rows ! j) = \<lparr>source = path f, chunkIndex = j, fileType = file_type f,
            lastModifiedISO = lastModified f\<rparr>" .
qed

lemma generation_ok_prefix:
  assumes g: "map unembedded rows = take n (generation f 0 chunks)"
  shows "generation_ok (path f) rows"
proof -
  have idx: "map (\<lambda>r. chunkIndex (metadata r)) rows = [0..<length rows]"
    by (rule nth_equalityI) (simp_all add: prefix_row_nth(2) [OF g])
  have each: "chunk_id r = path f @ str ''_chunk_'' @ show_nat (chunkIndex (metadata r)) \<and>
      fileType (metadata r) = file_type f \<and> lastModifiedISO (metadata r) = lastModified f"
    if "r \<in> set rows" for r
  proof -
    from that obtain j where j: "j < length rows" and r: "r = rows ! j" by (auto simp: in_set_conv_nth)
    show ?thesis unfolding r by (simp add: prefix_row_nth [OF g j])
  qed
  have hd: "fileType (metadata (hd rows)) = file_type f \<and>
      lastModifiedISO (metadata (hd rows)) = lastModified f" if "rows \<noteq> []"
    using each [of "hd rows"] that by simp
  show ?thesis unfolding generation_ok_def
  proof (intro conjI ballI)
    show "map (\<lambda>r. chunkIndex (metadata r)) rows = [0..<length rows]" by (rule idx)
  next
    fix r assume r: "r \<in> set rows"
    then have "rows \<noteq> []" by auto
    from each [OF r] hd [OF this]
    show "chunk_id r = path f @ str ''_chunk_'' @ show_nat (chunkIndex (metadata r))"
      and "fileType (metadata r) = fileType (metadata (hd rows))"
      and "lastModifiedISO (metadata r) = lastModifiedISO (metadata (hd rows))" by simp_all
  qed
qed

lemma generation_ok_Nil: "generation_ok src []"
  by (simp add: generation_ok_def)

lemma records_of_empty: "src \<notin> (\<lambda>r. source (metadata r)) ` set rows \<Longrightarrow> records_of src rows = []"
  by (auto simp: records_of_def filter_empty_conv)

lemma one_generation_all: "one_generation rows \<longleftrightarrow> (\<forall>src. generation_ok src (records_of src rows))"
proof
  assume o: "one_generation rows"
  show "\<forall>src. generation_ok src (records_of src rows)"
  proof
    fix src
    show "generation_ok src (records_of src rows)"
    proof (cases "src \<in> (\<lambda>r. source (metadata r)) ` set rows")
      case True
      with o show ?thesis by (auto simp: one_generation_def)
    next
      case False
      then show ?thesis by (simp add: records_of_empty generation_ok_Nil)
    qed
  qed
next
  assume "\<forall>src. generation_ok src (records_of src rows)"
  then show "one_generation rows" by (simp add: one_generation_def)
qed

lemma ingestFile_one_generation:
  assumes o: "one_generation (table w)" and i: "ingestFile env f w = Some (res, w')"
  shows "one_generation (table w')"
proof -
  from ingestFile_table [OF i] show ?thesis
  proof
    assume "res = Inl StoreError \<and> table w' = table w"
    with o show ?thesis by simp
  next
    assume r: "replaced f res w w'"
    show ?thesis unfolding one_generation_all
    proof
      fix src
      show "generation_ok src (records_of src (table w'))"
      proof (cases "src = path f")
        case True
        from replaced_records(1) [OF r] obtain chunks where
          "map unembedded (records_of (path f) (table w')) =
            take (length (records_of (path f) (table w'))) (generation f 0 chunks)" by blast
        then show ?thesis unfolding True by (rule generation_ok_prefix)
      next
        case False
        then have "records_of src (table w') = records_of src (table w)"
          by (rule replaced_records(2) [OF r])
        with o show ?thesis by (simp add: one_generation_all)
      qed
    qed
  qed
qed

lemma after_ingests_one_generation:
  "one_generation (table w) \<Longrightarrow> after_ingests env files w = Some w' \<Longrightarrow> one_generation (table w')"
proof (induction files arbitrary: w)
  case Nil
  then show ?case by simp
next
  case (Cons f fs)
  from ingestFile_returns obtain res w1 where i: "ingestFile env f w = Some (res, w1)"
    by (metis surj_pair)
  with Cons.prems(2) have a: "after_ingests env fs w1 = Some w'" by simp
  from Cons.prems(1) i have "one_generation (table w1)" by (rule ingestFile_one_generation)
  then show ?case using a by (rule Cons.IH)
qed

lemma ingestFile_success_count:
  assumes "ingestFile env f w = Some (Inr (), w')"
  shows "\<exists>chunks. splitIntoChunks (content f) 600 100 = Some chunks \<and>
    length (records_of (path f) (table w')) = length chunks"
proof -
  from ingestFile_table [OF assms] have "replaced f (Inr ()) w w'" by simp
  from replaced_records(1) [OF this] show ?thesis by auto
qed

lemma ingestFile_single:
  assumes "splitIntoChunks (content f) 600 100 = Some [t]"
    and "\<not> query_fails env (length (calls w))"
    and "embedding_values env (Suc (length (calls w))) t = Inr v"
    and "\<not> query_fails env (Suc (Suc (length (calls w))))"
  shows "ingestFile env f w = Some (Inr (),
    \<lparr>table = filter (\<lambda>r. source (metadata r) \<noteq> path f) (table w) @ [new_chunk f 0 t v],
     calls = calls w @ [Query, EmbedContent t, Query]\<rparr>)"
proof -
  let ?w1 = "\<lparr>table = filter (\<lambda>r. source (metadata r) \<noteq> path f) (table w), calls = calls w @ [Query]\<rparr>"
  have "ingestFile env f w = Some (insert_chunks env f [t] 0 ?w1)"
    using assms(2,1) by (rule ingestFile_deleted)
  also have "insert_chunks env f [t] 0 ?w1 = insert_chunks env f [] (Suc 0)
      \<lparr>table = table ?w1 @ [new_chunk f 0 t v], calls = calls ?w1 @ [EmbedContent t, Query]\<rparr>"
    using assms(3,4) by (intro insert_chunks_step) simp_all
  finally show ?thesis by (simp add: insert_chunks_Nil)
qed

lemma content_file_a: "content file_a = sample_text"
  by (simp add: file_a_def)

lemma content_file_b: "content file_b = sample_text"
  by (simp add: file_b_def)

lemma source_chunk_a: "source (metadata chunk_a) = str ''a.md''"
  by (simp add: chunk_a_def new_chunk_def file_a_def)

lemma source_chunk_b: "source (metadata chunk_b) = str ''b.md''"
  by (simp add: chunk_b_def new_chunk_def file_b_def)

lemma source_new_chunk: "source (metadata (new_chunk f i t v)) = path f"
  by (simp add: new_chunk_def)

lemma names_differ: "str ''b.md'' \<noteq> str ''a.md''"
  by (simp add: str_def)

lemma once_run: "ingestFile demo_env file_a empty_store = Some (Inr (), once_ingested)"
proof -
  have "ingestFile demo_env file_a empty_store = Some (Inr (),
    \<lparr>table = filter (\<lambda>r. source (metadata r) \<noteq> path file_a) (table empty_store) @
       [new_chunk file_a 0 sample_text [1, 0] ],
     calls = calls empty_store @ [Query, EmbedContent sample_text, Query]\<rparr>)"
    by (rule ingestFile_single) (simp_all add: content_file_a sample_split demo_env_def)
  then show ?thesis by (simp add: once_ingested_def empty_store_def chunk_a_def)
qed

lemma twice_run: "ingestFile demo_env file_a once_ingested = Some (Inr (), twice_ingested)"
proof -
  have "ingestFile demo_env file_a once_ingested = Some (Inr (),
    \<lparr>table = filter (\<lambda>r. source (metadata r) \<noteq> path file_a) (table once_ingested) @
       [new_chunk file_a 0 sample_text [1, 0] ],
     calls = calls once_ingested @ [Query, EmbedContent sample_text, Query]\<rparr>)"
    by (rule ingestFile_single) (simp_all add: content_file_a sample_split demo_env_def)
  then show ?thesis
    by (simp add: once_ingested_def twice_ingested_def source_chunk_a file_a_def)
       (simp add: chunk_a_def file_a_def)
qed

text \<open>
  C3. Ingesting the same unchanged document twice with \<open>ingestFile\<close> (two calls that
  return normally, one after the other) leaves as many records of that source as
  ingesting it once. And after any sequence of \<open>ingestFile\<close> calls, whatever their
  outcomes, on a store in which the records of every source form one generation (the
  empty store is one), the records of every source still form one generation: per source
  each chunk index occurs once, in order from 0, under one snapshot of the file.
\<close>

theorem ingestFile_idempotent:
  "(ingestFile env file w = Some (Inr (), w1) \<longrightarrow> ingestFile env file w1 = Some (Inr (), w2) \<longrightarrow>
      length (records_of (path file) (table w2)) = length (records_of (path file) (table w1))) \<and>
   (one_generation (table w) \<longrightarrow> after_ingests env files w = Some w' \<longrightarrow> one_generation (table w'))"
proof (intro conjI impI)
  assume a: "ingestFile env file w = Some (Inr (), w1)" and b: "ingestFile env file w1 = Some (Inr (), w2)"
  from ingestFile_success_count [OF a] ingestFile_success_count [OF b]
  show "length (records_of (path file) (table w2)) = length (records_of (path file) (table w1))"
    by auto
next
  assume "one_generation (table w)" and "after_ingests env files w = Some w'"
  then show "one_generation (table w')" by (rule after_ingests_one_generation)
qed

text \<open>C3 at the empty store, ingesting the sample file twice.\<close>

theorem ingestFile_idempotent_witness:
  "ingestFile demo_env file_a empty_store = Some (Inr (), once_ingested) \<and>
   ingestFile demo_env file_a once_ingested = Some (Inr (), twice_ingested) \<and>
   length (records_of (path file_a) (table twice_ingested)) =
     length (records_of (path file_a) (table once_ingested)) \<and>
   one_generation (table empty_store) \<and>
   after_ingests demo_env [file_a, file_a] empty_store = Some twice_ingested \<and>
   one_generation (table twice_ingested)"
proof -
  have o: "one_generation (table empty_store)" by (simp add: one_generation_def empty_store_def)
  have a: "after_ingests demo_env [file_a, file_a] empty_store = Some twice_ingested"
    by (simp add: once_run twice_run)
  from ingestFile_idempotent [of demo_env file_a empty_store once_ingested twice_ingested
      "[file_a, file_a]" twice_ingested] once_run twice_run o a
  show ?thesis by simp
qed

lemma insert_chunks_succeeded:
  "insert_chunks env f texts i w = (Inr (), w') \<Longrightarrow>
   \<exists>new. calls w' = calls w @ new \<and> succeeded env (length (calls w)) new"
proof (induction texts arbitrary: i w)
  case Nil
  then have "w' = w" by (simp add: insert_chunks_Nil)
  then show ?case by simp
next
  case (Cons t ts)
  note prems = Cons.prems
  show ?case
  proof (cases "embedding_values env (length (calls w)) t")
    case (Inl e)
    have "(Inr (), w') = insert_chunks env f (t # ts) i w" using prems by (rule sym)
    also have "\<dots> = (Inl e, w\<lparr>calls := calls w @ [EmbedContent t]\<rparr>)"
      using Inl by (rule insert_chunks_embed_fails)
    finally show ?thesis by simp
  next
    case (Inr v)
    show ?thesis
    proof (cases "query_fails env (Suc (length (calls w)))")
      case True
      have "(Inr (), w') = insert_chunks env f (t # ts) i w" using prems by (rule sym)
      also have "\<dots> = (Inl StoreError, w\<lparr>calls := calls w @ [EmbedContent t, Query]\<rparr>)"
        using Inr True by (rule insert_chunks_insert_fails)
      finally show ?thesis by simp
    next
      case False
      define w2 where "w2 = \<lparr>table = table w @ [new_chunk f i t v], calls = calls w @ [EmbedContent t, Query]\<rparr>"
      have "insert_chunks env f ts (Suc i) w2 = insert_chunks env f (t # ts) i w"
        unfolding w2_def using Inr False by (rule insert_chunks_step [symmetric])
      then have "insert_chunks env f ts (Suc i) w2 = (Inr (), w')" using prems by (rule trans)
      from Cons.IH [OF this] obtain new where n: "calls w' = calls w2 @ new"
        and s: "succeeded env (length (calls w2)) new" by blast
      have c: "calls w2 = calls w @ [EmbedContent t, Query]" by (simp add: w2_def)
      have "calls w' = calls w @ ([EmbedContent t, Query] @ new)" using n c by simp
      moreover have "succeeded env (length (calls w)) ([EmbedContent t, Query] @ new)"
        using s c Inr False by simp
      ultimately show ?thesis by blast
    qed
  qed
qed

lemma ingestFile_succeeded:
  assumes "ingestFile env f w = Some (Inr (), w')"
  shows "\<exists>new. calls w' = calls w @ new \<and> succeeded env (length (calls w)) new"
proof (cases "query_fails env (length (calls w))")
  case True
  have "Some (Inr (), w') = ingestFile env f w" using assms by (rule sym)
  also have "\<dots> = Some (Inl StoreError, w\<lparr>calls := calls w @ [Query]\<rparr>)"
    using True by (rule ingestFile_delete_fails)
  finally show ?thesis by simp
next
  case False
  define w1 where "w1 = \<lparr>table = filter (\<lambda>r. source (metadata r) \<noteq> path f) (table w), calls = calls w @ [Query]\<rparr>"
  from splitIntoChunks_default obtain chunks where c: "splitIntoChunks (content f) 600 100 = Some chunks" ..
  from assms ingestFile_deleted [OF False c] have "insert_chunks env f chunks 0 w1 = (Inr (), w')"
    by (simp add: w1_def)
  from insert_chunks_succeeded [OF this] obtain new where n: "calls w' = calls w1 @ new"
    and s: "succeeded env (length (calls w1)) new" by blast
  have c1: "calls w1 = calls w @ [Query]" by (simp add: w1_def)
  have "calls w' = calls w @ (Query # new)" using n c1 by simp
  moreover have "succeeded env (length (calls w)) (Query # new)" using s c1 False by simp
  ultimately show ?thesis by blast
qed

lemma ingestFile_failed:
  assumes "ingestFile env f w = Some (Inl e, w')"
  shows "(src \<noteq> path f \<longrightarrow> records_of src (table w') = records_of src (table w)) \<and>
    (table w' = table w \<or>
     (\<exists>chunks. splitIntoChunks (content f) 600 100 = Some chunks \<and>
        length (records_of (path f) (table w')) < length chunks \<and>
        map unembedded (records_of (path f) (table w')) =
          take (length (records_of (path f) (table w'))) (generation f 0 chunks)))"
proof -
  from ingestFile_table [OF assms] show ?thesis
  proof
    assume "Inl e = Inl StoreError \<and> table w' = table w"
    then show ?thesis by simp
  next
    assume r: "replaced f (Inl e) w w'"
    from replaced_records(1) [OF r] replaced_records(2) [OF r, of src] show ?thesis by auto
  qed
qed

text \<open>
  C2, as amended. Every failure during \<open>ingestFile\<close> is thrown to the caller: a call
  that returns normally has made no request that failed. For every source and every call
  of \<open>ingestFile\<close> for it that fails, the records of every other source are as before
  the call. For the source itself there is no rollback: either the table is as before the
  call (the \<open>DELETE\<close> failed), or all its old records are gone and the first chunks
  of the new chunk set, but not all of them, have been inserted.
\<close>

theorem ingestFile_failure:
  assumes "ingestFile env file w = Some (res, w')"
  shows "(res = Inr () \<longrightarrow>
           (\<exists>new. calls w' = calls w @ new \<and> succeeded env (length (calls w)) new)) \<and>
         (res = Inl e \<longrightarrow>
           (src \<noteq> path file \<longrightarrow> records_of src (table w') = records_of src (table w)) \<and>
           (table w' = table w \<or>
            (\<exists>chunks. splitIntoChunks (content file) 600 100 = Some chunks \<and>
               length (records_of (path file) (table w')) < length chunks \<and>
               map unembedded (records_of (path file) (table w')) =
                 take (length (records_of (path file) (table w'))) (generation file 0 chunks))))"
proof (intro conjI impI)
  assume "res = Inr ()"
  with assms have "ingestFile env file w = Some (Inr (), w')" by simp
  then show "\<exists>new. calls w' = calls w @ new \<and> succeeded env (length (calls w)) new"
    by (rule ingestFile_succeeded)
next
  assume "res = Inl e"
  with assms have f: "ingestFile env file w = Some (Inl e, w')" by simp
  assume "src \<noteq> path file"
  with ingestFile_failed [OF f, of src]
  show "records_of src (table w') = records_of src (table w)" by simp
next
  assume "res = Inl e"
  with assms have f: "ingestFile env file w = Some (Inl e, w')" by simp
  from ingestFile_failed [OF f, of src]
  show "table w' = table w \<or>
     (\<exists>chunks. splitIntoChunks (content file) 600 100 = Some chunks \<and>
        length (records_of (path file) (table w')) < length chunks \<and>
        map unembedded (records_of (path file) (table w')) =
          take (length (records_of (path file) (table w'))) (generation file 0 chunks))"
    by simp
qed

lemma half_replaced_run: "ingestFile flaky_env tail_file two_sources = Some (Inl ProviderError, half_replaced)"
proof -
  let ?c0 = "replicate 550 (0x61 :: jschar)" and ?c1 = "replicate 50 (0x61 :: jschar)"
  let ?w1 = "\<lparr>table = filter (\<lambda>r. source (metadata r) \<noteq> path tail_file) (table two_sources),
      calls = calls two_sources @ [Query]\<rparr>"
  let ?w2 = "\<lparr>table = table ?w1 @ [new_chunk tail_file 0 ?c0 [1, 0] ],
      calls = calls ?w1 @ [EmbedContent ?c0, Query]\<rparr>"
  have q: "\<And>t. \<not> query_fails flaky_env t" by (simp add: flaky_env_def demo_env_def)
  have c: "splitIntoChunks (content tail_file) 600 100 = Some [?c0, ?c1]"
    by (simp add: tail_file_def tail_split)
  have "ingestFile flaky_env tail_file two_sources = Some (insert_chunks flaky_env tail_file [?c0, ?c1] 0 ?w1)"
    using q c by (rule ingestFile_deleted)
  also have "insert_chunks flaky_env tail_file [?c0, ?c1] 0 ?w1 = insert_chunks flaky_env tail_file [?c1] (Suc 0) ?w2"
    by (rule insert_chunks_step [where v = "[1, 0]"])
       (simp_all add: flaky_env_def demo_env_def two_sources_def)
  also have "\<dots> = (Inl ProviderError, ?w2\<lparr>calls := calls ?w2 @ [EmbedContent ?c1]\<rparr>)"
    by (rule insert_chunks_embed_fails) (simp add: flaky_env_def demo_env_def two_sources_def)
  also have "?w2\<lparr>calls := calls ?w2 @ [EmbedContent ?c1]\<rparr> = half_replaced"
    by (simp add: half_replaced_def two_sources_def tail_file_def source_chunk_a source_chunk_b names_differ)
  finally show ?thesis .
qed

text \<open>
  The amended C2 at a store with one chunk of \<open>a.md\<close> and one of \<open>b.md\<close>, when a new
  version of \<open>a.md\<close> with two chunks is ingested and the second embedding fails.
\<close>

theorem ingestFile_failure_witness:
  "ingestFile demo_env file_a empty_store = Some (Inr (), once_ingested) \<and>
   (\<exists>new. calls once_ingested = calls empty_store @ new \<and>
      succeeded demo_env (length (calls empty_store)) new) \<and>
   ingestFile flaky_env tail_file two_sources = Some (Inl ProviderError, half_replaced) \<and>
   str ''b.md'' \<noteq> path tail_file \<and>
   records_of (str ''b.md'') (table half_replaced) = records_of (str ''b.md'') (table two_sources) \<and>
   (table half_replaced = table two_sources \<or>
     (\<exists>chunks. splitIntoChunks (content tail_file) 600 100 = Some chunks \<and>
        length (records_of (path tail_file) (table half_replaced)) < length chunks \<and>
        map unembedded (records_of (path tail_file) (table half_replaced)) =
          take (length (records_of (path tail_file) (table half_replaced))) (generation tail_file 0 chunks)))"
proof -
  have n: "str ''b.md'' \<noteq> path tail_file" by (simp add: tail_file_def names_differ)
  from ingestFile_failure [OF once_run]
  have a: "\<exists>new. calls once_ingested = calls empty_store @ new \<and>
      succeeded demo_env (length (calls empty_store)) new" by blast
  from ingestFile_failure [OF half_replaced_run, of ProviderError "str ''b.md''"] n
  have b: "records_of (str ''b.md'') (table half_replaced) = records_of (str ''b.md'') (table two_sources) \<and>
   (table half_replaced = table two_sources \<or>
     (\<exists>chunks. splitIntoChunks (content tail_file) 600 100 = Some chunks \<and>
        length (records_of (path tail_file) (table half_replaced)) < length chunks \<and>
        map unembedded (records_of (path tail_file) (table half_replaced)) =
          take (length (records_of (path tail_file) (table half_replaced))) (generation tail_file 0 chunks)))"
    by simp
  from once_run half_replaced_run n a b show ?thesis by blast
qed

text \<open>
  C2 as stated fails: in that run the call fails, and the store is left with a partial
  commit for the source. Its old record is gone, and of the two chunks of the new version
  only the first has been inserted.
\<close>

theorem ingestFile_failure_counterexample:
  "ingestFile flaky_env tail_file two_sources = Some (Inl ProviderError, half_replaced) \<and>
   splitIntoChunks (content tail_file) 600 100 = Some [replicate 550 0x61, replicate 50 0x61] \<and>
   records_of (path tail_file) (table two_sources) = [chunk_a] \<and>
   records_of (path tail_file) (table half_replaced) = [new_chunk tail_file 0 (replicate 550 0x61) [1, 0] ] \<and>
   chunk_content chunk_a \<noteq> chunk_content (new_chunk tail_file 0 (replicate 550 0x61) [1, 0])"
proof -
  have "length (chunk_content chunk_a) \<noteq>
      length (chunk_content (new_chunk tail_file 0 (replicate 550 (0x61 :: jschar)) [1, 0]))"
    by (simp add: chunk_a_def new_chunk_def sample_text_def str_def)
  then have "chunk_content chunk_a \<noteq> chunk_content (new_chunk tail_file 0 (replicate 550 0x61) [1, 0])"
    by metis
  moreover have "records_of (path tail_file) (table two_sources) = [chunk_a]"
    by (simp add: records_of_def two_sources_def tail_file_def source_chunk_a source_chunk_b names_differ)
  moreover have "records_of (path tail_file) (table half_replaced) =
      [new_chunk tail_file 0 (replicate 550 0x61) [1, 0] ]"
    by (simp add: records_of_def half_replaced_def source_new_chunk source_chunk_b tail_file_def names_differ)
  moreover have "splitIntoChunks (content tail_file) 600 100 = Some [replicate 550 0x61, replicate 50 0x61]"
    by (simp add: tail_file_def tail_split)
  ultimately show ?thesis using half_replaced_run by simp
qed

text \<open>
  C8, as amended. For every batch of documents processed by the \<open>ingest\<close> command, a
  single document's embedding or storage failure is thrown out of \<open>ingestFile\<close> and
  ends the batch: the loop stops with that failure in the world that the failed call
  left, whatever documents follow, and the records of the other documents are as they
  were before the failed call.
\<close>

theorem ingest_files_halts:
  assumes "ingest_files env before w = Some (Inr (), w1)" and "ingestFile env file w1 = Some (Inl e, w2)"
  shows "ingest_files env (before @ file # rest) w = Some (Inl e, w2) \<and>
         (src \<noteq> path file \<longrightarrow> records_of src (table w2) = records_of src (table w1))"
proof
  show "ingest_files env (before @ file # rest) w = Some (Inl e, w2)"
    using assms
  proof (induction before arbitrary: w)
    case Nil
    then show ?case by simp
  next
    case (Cons f fs)
    from Cons.prems(1) obtain w0 where "ingestFile env f w = Some (Inr (), w0)"
      and "ingest_files env fs w0 = Some (Inr (), w1)"
      by (auto split: option.splits sum.splits prod.splits)
    with Cons.IH [OF _ Cons.prems(2)] show ?case by simp
  qed
  show "src \<noteq> path file \<longrightarrow> records_of src (table w2) = records_of src (table w1)"
    using ingestFile_failed [OF assms(2), of src] by simp
qed

lemma b_run: "ingestFile late_env file_b empty_store = Some (Inr (), b_ingested)"
proof -
  have "ingestFile late_env file_b empty_store = Some (Inr (),
    \<lparr>table = filter (\<lambda>r. source (metadata r) \<noteq> path file_b) (table empty_store) @
       [new_chunk file_b 0 sample_text [1, 0] ],
     calls = calls empty_store @ [Query, EmbedContent sample_text, Query]\<rparr>)"
    by (rule ingestFile_single)
       (simp_all add: content_file_b sample_split late_env_def demo_env_def empty_store_def)
  then show ?thesis by (simp add: b_ingested_def empty_store_def)
qed

lemma b_abort_run: "ingestFile late_env file_a b_ingested = Some (Inl ProviderError, b_then_aborted)"
proof -
  let ?w1 = "\<lparr>table = filter (\<lambda>r. source (metadata r) \<noteq> path file_a) (table b_ingested),
      calls = calls b_ingested @ [Query]\<rparr>"
  have q: "\<not> query_fails late_env (length (calls b_ingested))" by (simp add: late_env_def demo_env_def)
  have c: "splitIntoChunks (content file_a) 600 100 = Some [sample_text]"
    by (simp add: content_file_a sample_split)
  have "ingestFile late_env file_a b_ingested = Some (insert_chunks late_env file_a [sample_text] 0 ?w1)"
    using q c by (rule ingestFile_deleted)
  also have "insert_chunks late_env file_a [sample_text] 0 ?w1 =
      (Inl ProviderError, ?w1\<lparr>calls := calls ?w1 @ [EmbedContent sample_text]\<rparr>)"
    by (rule insert_chunks_embed_fails) (simp add: late_env_def demo_env_def b_ingested_def)
  also have "?w1\<lparr>calls := calls ?w1 @ [EmbedContent sample_text]\<rparr> = b_then_aborted"
    by (simp add: b_then_aborted_def b_ingested_def source_new_chunk file_a_def file_b_def names_differ)
  finally show ?thesis .
qed

lemma aborted_run: "ingestFile once_env file_a empty_store = Some (Inl ProviderError, aborted)"
proof -
  let ?w1 = "\<lparr>table = filter (\<lambda>r. source (metadata r) \<noteq> path file_a) (table empty_store),
      calls = calls empty_store @ [Query]\<rparr>"
  have q: "\<not> query_fails once_env (length (calls empty_store))" by (simp add: once_env_def demo_env_def)
  have c: "splitIntoChunks (content file_a) 600 100 = Some [sample_text]"
    by (simp add: content_file_a sample_split)
  have "ingestFile once_env file_a empty_store = Some (insert_chunks once_env file_a [sample_text] 0 ?w1)"
    using q c by (rule ingestFile_deleted)
  also have "insert_chunks once_env file_a [sample_text] 0 ?w1 =
      (Inl ProviderError, ?w1\<lparr>calls := calls ?w1 @ [EmbedContent sample_text]\<rparr>)"
    by (rule insert_chunks_embed_fails) (simp add: once_env_def demo_env_def empty_store_def)
  also have "?w1\<lparr>calls := calls ?w1 @ [EmbedContent sample_text]\<rparr> = aborted"
    by (simp add: aborted_def empty_store_def)
  finally show ?thesis .
qed

lemma later_run: "ingestFile once_env file_b aborted = Some (Inr (), later)"
proof -
  have "ingestFile once_env file_b aborted = Some (Inr (),
    \<lparr>table = filter (\<lambda>r. source (metadata r) \<noteq> path file_b) (table aborted) @
       [new_chunk file_b 0 sample_text [1, 0] ],
     calls = calls aborted @ [Query, EmbedContent sample_text, Query]\<rparr>)"
    by (rule ingestFile_single)
       (simp_all add: content_file_b sample_split once_env_def demo_env_def aborted_def)
  then show ?thesis by (simp add: later_def aborted_def)
qed

text \<open>
  The amended C8 at a batch of three files, of which the second fails at its embedding:
  the first stays ingested and the third is not reached.
\<close>

theorem ingest_files_halts_witness:
  "ingest_files late_env [file_b] empty_store = Some (Inr (), b_ingested) \<and>
   ingestFile late_env file_a b_ingested = Some (Inl ProviderError, b_then_aborted) \<and>
   ingest_files late_env ([file_b] @ file_a # [tail_file]) empty_store =
     Some (Inl ProviderError, b_then_aborted) \<and>
   path file_b \<noteq> path file_a \<and>
   records_of (path file_b) (table b_then_aborted) = records_of (path file_b) (table b_ingested)"
proof -
  have n: "ingest_files late_env [file_b] empty_store = Some (Inr (), b_ingested)"
    by (simp add: b_run)
  have d: "path file_b \<noteq> path file_a" by (simp add: file_a_def file_b_def names_differ)
  from ingest_files_halts [OF n b_abort_run, of "[tail_file]" "path file_b"] n b_abort_run d
  show ?thesis by simp
qed

text \<open>
  C8 as stated fails: in that batch the failure of the first file ends the batch. The
  second file is never ingested (the store holds no record of it and no request was made
  for it), although ingesting it next would have succeeded.
\<close>

theorem ingest_files_continue_counterexample:
  "ingest_files once_env [file_a, file_b] empty_store = Some (Inl ProviderError, aborted) \<and>
   records_of (path file_b) (table aborted) = [] \<and>
   ingestFile once_env file_b aborted = Some (Inr (), later)"
  by (simp add: aborted_run later_run) (simp add: aborted_def records_of_def)

end
